theory Spec2Isabelle
  imports Main
begin

section \<open>Date utilities (src/utils/date.ts)\<close>

subsection \<open>Numbers and strings of the host language\<close>

text \<open>
  A JavaScript number that reaches the date utilities is an integer far below \<open>2^53\<close> or it
  is NaN, so a number is an \<open>int option\<close> with \<open>None\<close> for NaN. \<open>!==\<close> on numbers is
  not HOL's disequality: NaN differs from everything, itself included.
\<close>

type_synonym number = "int option"

definition strict_ne :: "number \<Rightarrow> number \<Rightarrow> bool" where
  "strict_ne a b = (case (a, b) of (Some x, Some y) \<Rightarrow> x \<noteq> y | _ \<Rightarrow> True)"

definition num_add :: "number \<Rightarrow> int \<Rightarrow> number" where
  "num_add a k = (case a of None \<Rightarrow> None | Some x \<Rightarrow> Some (x + k))"

definition is_digit :: "char \<Rightarrow> bool" where
  "is_digit c = (48 \<le> (of_char c :: nat) \<and> (of_char c :: nat) \<le> 57)"

definition digit_val :: "char \<Rightarrow> nat" where
  "digit_val c = of_char c - 48"

definition digit_char :: "nat \<Rightarrow> char" where
  "digit_char n = char_of (48 + n)"

text \<open>The decimal digits of a natural number, most significant first, as \<open>String(n)\<close> prints them.\<close>

fun show_nat :: "nat \<Rightarrow> string" where
  "show_nat n = (if n < 10 then [digit_char n] else show_nat (n div 10) @ [digit_char (n mod 10)])"

declare show_nat.simps [simp del]

text \<open>\<open>String(x)\<close> and \<open>`${x}`\<close> on a number (integers below \<open>10^21\<close> print in full).\<close>

definition String_of :: "number \<Rightarrow> string" where
  "String_of x = (case x of None \<Rightarrow> ''NaN''
     | Some i \<Rightarrow> if i < 0 then CHR ''-'' # show_nat (nat (- i)) else show_nat (nat i))"

text \<open>\<open>s.padStart(n, '0')\<close>.\<close>

definition padStart :: "nat \<Rightarrow> char \<Rightarrow> string \<Rightarrow> string" where
  "padStart n c s = replicate (n - length s) c @ s"

text \<open>
  \<open>parseInt(s, 10)\<close>: leading white space is skipped, one sign is read, then the longest
  run of decimal digits; NaN when that run is empty. (White space is the ASCII part of the
  language's definition; the capture groups it is applied to hold digits only.)
\<close>

definition is_space :: "char \<Rightarrow> bool" where
  "is_space c = ((of_char c :: nat) \<in> {9, 10, 11, 12, 13, 32})"

definition digits_val :: "string \<Rightarrow> nat" where
  "digits_val ds = foldl (\<lambda>acc c. 10 * acc + digit_val c) 0 ds"

definition parseInt :: "string \<Rightarrow> number" where
  "parseInt s =
     (let t = dropWhile is_space s;
          (neg, u) = (case t of c # r \<Rightarrow> if c = CHR ''-'' then (True, r)
                                       else if c = CHR ''+'' then (False, r) else (False, t)
                      | [] \<Rightarrow> (False, t));
          ds = takeWhile is_digit u
      in if ds = [] then None
         else Some (if neg then - int (digits_val ds) else int (digits_val ds)))"

subsection \<open>Time values and the calendar functions of the Date object\<close>

text \<open>
  A Date holds a time value: milliseconds since 1970-01-01T00:00Z, or NaN (an invalid Date).
  The functions below are the abstract operations of the language standard that
  \<open>Date.UTC\<close>, \<open>getUTCFullYear\<close>, \<open>getFullYear\<close> and their siblings are defined by.
\<close>

datatype Date = Date (time_value: number)

definition msPerDay :: int where
  "msPerDay = 86400000"

definition Day :: "int \<Rightarrow> int" where
  "Day t = t div msPerDay"

definition DaysInYear :: "int \<Rightarrow> int" where
  "DaysInYear y = (if y mod 4 \<noteq> 0 then 365 else if y mod 100 \<noteq> 0 then 366
                   else if y mod 400 \<noteq> 0 then 365 else 366)"

definition DayFromYear :: "int \<Rightarrow> int" where
  "DayFromYear y = 365 * (y - 1970) + (y - 1969) div 4 - (y - 1901) div 100 + (y - 1601) div 400"

text \<open>
  \<open>DayFromYear (y + 1) - DayFromYear y\<close> is the length of year \<open>y\<close>; the search for the
  year of a day below terminates because of it.
\<close>

lemma div_step:
  fixes x n :: int
  assumes "0 < n"
  shows "(x + 1) div n = x div n + (if (x + 1) mod n = 0 then 1 else 0)"
proof -
  define q where "q = x div n"
  define r where "r = x mod n"
  have x: "x = n * q + r" and r: "0 \<le> r" "r < n"
    using assms by (simp_all add: q_def r_def)
  show ?thesis
  proof (cases "r + 1 = n")
    case True
    then have "x + 1 = n * (q + 1)" using x by (simp add: algebra_simps)
    then show ?thesis using assms q_def by simp
  next
    case False
    then have lt: "r + 1 < n" using r by simp
    have e: "x + 1 = n * q + (r + 1)" using x by simp
    have "(x + 1) div n = q"
      unfolding e using lt r assms by (simp add: div_pos_pos_trivial)
    moreover have "(x + 1) mod n = r + 1"
      unfolding e using lt r assms by (simp add: mod_pos_pos_trivial)
    ultimately show ?thesis using r q_def by simp
  qed
qed

lemma mod_shift:
  fixes y :: int
  shows "(y - 1968) mod 4 = 0 \<longleftrightarrow> y mod 4 = 0"
    and "(y - 1900) mod 100 = 0 \<longleftrightarrow> y mod 100 = 0"
    and "(y - 1600) mod 400 = 0 \<longleftrightarrow> y mod 400 = 0"
  by (simp_all add: mod_eq_0_iff_dvd dvd_diff_left_iff)

lemma mod_chain:
  fixes y :: int
  shows "y mod 400 = 0 \<Longrightarrow> y mod 100 = 0" and "y mod 100 = 0 \<Longrightarrow> y mod 4 = 0"
  by (auto simp: mod_eq_0_iff_dvd elim: dvd_trans [rotated])

lemma DayFromYear_step: "DayFromYear (y + 1) = DayFromYear y + DaysInYear y"
proof -
  have a: "(y + 1 - 1969) div 4 = (y - 1969) div 4 + (if y mod 4 = 0 then 1 else 0)"
    using div_step [of 4 "y - 1969"] mod_shift(1) [of y] by (simp add: algebra_simps)
  have b: "(y + 1 - 1901) div 100 = (y - 1901) div 100 + (if y mod 100 = 0 then 1 else 0)"
    using div_step [of 100 "y - 1901"] mod_shift(2) [of y] by (simp add: algebra_simps)
  have c: "(y + 1 - 1601) div 400 = (y - 1601) div 400 + (if y mod 400 = 0 then 1 else 0)"
    using div_step [of 400 "y - 1601"] mod_shift(3) [of y] by (simp add: algebra_simps)
  show ?thesis
    unfolding DayFromYear_def DaysInYear_def a b c
    using mod_chain [of y] by auto
qed

lemma DaysInYear_bounds: "365 \<le> DaysInYear y" "DaysInYear y \<le> 366"
  by (simp_all add: DaysInYear_def)

text \<open>
  \<open>YearFromTime t\<close> is the largest \<open>y\<close> with \<open>DayFromYear y \<le> Day t\<close>. It is found by
  stepping up from a year that is not after it (a year has at most 366 days, and at least
  365); \<open>YearFromTime_bounds\<close> below proves that the result is that year.
\<close>

function year_search :: "int \<Rightarrow> int \<Rightarrow> int" where
  "year_search d y = (if DayFromYear (y + 1) \<le> d then year_search d (y + 1) else y)"
  by pat_completeness auto
termination
proof (relation "measure (\<lambda>(d, y). nat (d + 1 - DayFromYear (y + 1)))")
  show "wf (measure (\<lambda>(d, y). nat (d + 1 - DayFromYear (y + 1))))" by simp
next
  fix d y :: int
  assume "DayFromYear (y + 1) \<le> d"
  moreover have "DayFromYear (y + 1 + 1) = DayFromYear (y + 1) + DaysInYear (y + 1)"
    by (rule DayFromYear_step)
  moreover have "365 \<le> DaysInYear (y + 1)" by (rule DaysInYear_bounds)
  ultimately show "((d, y + 1), (d, y)) \<in> measure (\<lambda>(d, y). nat (d + 1 - DayFromYear (y + 1)))"
    by simp
qed

declare year_search.simps [simp del]

definition YearFromTime :: "int \<Rightarrow> int" where
  "YearFromTime t =
     (let d = Day t in year_search d (1970 + (if 0 \<le> d then d div 366 else d div 365)))"

definition InLeapYear :: "int \<Rightarrow> int" where
  "InLeapYear t = (if DaysInYear (YearFromTime t) = 366 then 1 else 0)"

definition DayWithinYear :: "int \<Rightarrow> int" where
  "DayWithinYear t = Day t - DayFromYear (YearFromTime t)"

definition MonthFromTime :: "int \<Rightarrow> int" where
  "MonthFromTime t =
     (let d = DayWithinYear t; l = InLeapYear t
      in if d < 31 then 0 else if d < 59 + l then 1 else if d < 90 + l then 2
         else if d < 120 + l then 3 else if d < 151 + l then 4 else if d < 181 + l then 5
         else if d < 212 + l then 6 else if d < 243 + l then 7 else if d < 273 + l then 8
         else if d < 304 + l then 9 else if d < 334 + l then 10 else 11)"

definition DateFromTime :: "int \<Rightarrow> int" where
  "DateFromTime t =
     (let d = DayWithinYear t; l = InLeapYear t; m = MonthFromTime t
      in if m = 0 then d + 1 else if m = 1 then d - 30 else if m = 2 then d - 58 - l
         else if m = 3 then d - 89 - l else if m = 4 then d - 119 - l
         else if m = 5 then d - 150 - l else if m = 6 then d - 180 - l
         else if m = 7 then d - 211 - l else if m = 8 then d - 242 - l
         else if m = 9 then d - 272 - l else if m = 10 then d - 303 - l else d - 333 - l)"

text \<open>
  \<open>MakeDay\<close> asks for a time value \<open>t\<close> in year \<open>ym\<close>, month \<open>mn\<close>, on the first of the
  month, and returns \<open>Day t + dt - 1\<close>; \<open>month_start\<close> is the day within the year such a
  \<open>t\<close> falls on (\<open>MakeDay_spec\<close> below).
\<close>

definition month_start :: "int \<Rightarrow> int \<Rightarrow> int" where
  "month_start mn l =
     (if mn = 0 then 0 else if mn = 1 then 31 else if mn = 2 then 59 + l
      else if mn = 3 then 90 + l else if mn = 4 then 120 + l else if mn = 5 then 151 + l
      else if mn = 6 then 181 + l else if mn = 7 then 212 + l else if mn = 8 then 243 + l
      else if mn = 9 then 273 + l else if mn = 10 then 304 + l else 334 + l)"

definition MakeDay :: "int \<Rightarrow> int \<Rightarrow> int \<Rightarrow> int" where
  "MakeDay year month dt =
     (let ym = year + month div 12; mn = month mod 12
      in DayFromYear ym + month_start mn (if DaysInYear ym = 366 then 1 else 0) + dt - 1)"

definition MakeDate :: "int \<Rightarrow> int \<Rightarrow> int" where
  "MakeDate day time = day * msPerDay + time"

definition TimeClip :: "int \<Rightarrow> number" where
  "TimeClip time = (if \<bar>time\<bar> > 8640000000000000 then None else Some time)"

text \<open>
  \<open>Date.UTC(year, month, date)\<close>: a year from 0 to 99 stands for 1900 + year; the time
  within the day is 0.
\<close>

definition Date_UTC :: "number \<Rightarrow> number \<Rightarrow> number \<Rightarrow> number" where
  "Date_UTC year month date =
     (case (year, month, date) of
        (Some y, Some m, Some dt) \<Rightarrow>
          (let yr = (if 0 \<le> y \<and> y \<le> 99 then 1900 + y else y)
           in TimeClip (MakeDate (MakeDay yr m dt) 0))
      | _ \<Rightarrow> None)"

definition new_Date :: "number \<Rightarrow> Date" where
  "new_Date tv = Date (case tv of None \<Rightarrow> None | Some t \<Rightarrow> TimeClip t)"

definition getUTCFullYear :: "Date \<Rightarrow> number" where
  "getUTCFullYear d = (case time_value d of None \<Rightarrow> None | Some t \<Rightarrow> Some (YearFromTime t))"

definition getUTCMonth :: "Date \<Rightarrow> number" where
  "getUTCMonth d = (case time_value d of None \<Rightarrow> None | Some t \<Rightarrow> Some (MonthFromTime t))"

definition getUTCDate :: "Date \<Rightarrow> number" where
  "getUTCDate d = (case time_value d of None \<Rightarrow> None | Some t \<Rightarrow> Some (DateFromTime t))"

text \<open>
  The getters without UTC in their name read the time value in the host's time zone:
  \<open>LocalTime t = t + LocalTZA t\<close>, where the host supplies its offset from UTC, in
  milliseconds, at the instant \<open>t\<close>. The offset is the parameter \<open>tza\<close> of every function
  that reads local time.
\<close>

type_synonym LocalTZA = "int \<Rightarrow> int"

definition LocalTime :: "LocalTZA \<Rightarrow> int \<Rightarrow> int" where
  "LocalTime tza t = t + tza t"

definition getFullYear :: "LocalTZA \<Rightarrow> Date \<Rightarrow> number" where
  "getFullYear tza d =
     (case time_value d of None \<Rightarrow> None | Some t \<Rightarrow> Some (YearFromTime (LocalTime tza t)))"

definition getMonth :: "LocalTZA \<Rightarrow> Date \<Rightarrow> number" where
  "getMonth tza d =
     (case time_value d of None \<Rightarrow> None | Some t \<Rightarrow> Some (MonthFromTime (LocalTime tza t)))"

definition getDate :: "LocalTZA \<Rightarrow> Date \<Rightarrow> number" where
  "getDate tza d =
     (case time_value d of None \<Rightarrow> None | Some t \<Rightarrow> Some (DateFromTime (LocalTime tza t)))"

subsection \<open>formatDate, parseDate, isValidDate\<close>

definition formatDate :: "LocalTZA \<Rightarrow> Date \<Rightarrow> string" where
  "formatDate tza date =
     (let year = getFullYear tza date;
          month = padStart 2 (CHR ''0'') (String_of (num_add (getMonth tza date) 1));
          day = padStart 2 (CHR ''0'') (String_of (getDate tza date))
      in String_of year @ ''-'' @ month @ ''-'' @ day)"

text \<open>
  The match of \<open>/^(\d{4})-(\d{2})-(\d{2})$/\<close>: the three capture groups, or \<open>None\<close>. Without
  the multiline flag \<open>^\<close> and \<open>$\<close> are the two ends of the input, and \<open>\d\<close> is an ASCII digit.
\<close>

definition dateRegex_match :: "string \<Rightarrow> (string \<times> string \<times> string) option" where
  "dateRegex_match s =
     (case s of
        [y1, y2, y3, y4, s1, m1, m2, s2, d1, d2] \<Rightarrow>
          if is_digit y1 \<and> is_digit y2 \<and> is_digit y3 \<and> is_digit y4 \<and> s1 = CHR ''-''
             \<and> is_digit m1 \<and> is_digit m2 \<and> s2 = CHR ''-'' \<and> is_digit d1 \<and> is_digit d2
          then Some ([y1, y2, y3, y4], [m1, m2], [d1, d2]) else None
      | _ \<Rightarrow> None)"

definition parseDate :: "string \<Rightarrow> Date option" where
  "parseDate dateString =
     (case dateRegex_match dateString of
        None \<Rightarrow> None
      | Some (yearStr, monthStr, dayStr) \<Rightarrow>
          (let year = parseInt yearStr;
               month = parseInt monthStr;
               day = parseInt dayStr;
               date = new_Date (Date_UTC year (num_add month (- 1)) day)
           in if strict_ne (getUTCFullYear date) year
                 \<or> strict_ne (getUTCMonth date) (num_add month (- 1))
                 \<or> strict_ne (getUTCDate date) day
              then None else Some date))"

definition isValidDate :: "string \<Rightarrow> bool" where
  "isValidDate dateString = (parseDate dateString \<noteq> None)"

section \<open>Calendar utilities (src/utils/calendar.ts)\<close>

subsection \<open>The diocese registry\<close>

text \<open>
  \<open>DIOCESE_TO_COUNTRY\<close> is an object literal, so \<open>DIOCESE_TO_COUNTRY[diocese]\<close> is a property
  read: the object's own six properties first, then the properties every object inherits
  from \<open>Object.prototype\<close>, and \<open>undefined\<close> (\<open>None\<close>) when neither has the name. An
  inherited property is a built-in function (for \<open>__proto__\<close>, the prototype object), never
  a string.
\<close>

datatype jsvalue = JSString string | ProtoMember string

definition DIOCESE_TO_COUNTRY :: "(string \<times> string) list" where
  "DIOCESE_TO_COUNTRY =
     [(''united-states'', ''unitedStates''), (''england'', ''england''), (''italy'', ''italy''),
      (''france'', ''france''), (''spain'', ''spain''), (''germany'', ''germany'')]"

definition Object_prototype_keys :: "string list" where
  "Object_prototype_keys =
     [''constructor'', ''__defineGetter__'', ''__defineSetter__'', ''hasOwnProperty'',
      ''__lookupGetter__'', ''__lookupSetter__'', ''isPrototypeOf'', ''propertyIsEnumerable'',
      ''toString'', ''valueOf'', ''__proto__'', ''toLocaleString'']"

definition get_property :: "(string \<times> string) list \<Rightarrow> string \<Rightarrow> jsvalue option" where
  "get_property obj k =
     (case map_of obj k of
        Some v \<Rightarrow> Some (JSString v)
      | None \<Rightarrow> if k \<in> set Object_prototype_keys then Some (ProtoMember k) else None)"

definition SUPPORTED_DIOCESES :: "string list" where
  "SUPPORTED_DIOCESES = [''united-states'', ''england'', ''italy'', ''france'', ''spain'', ''germany'']"

definition DEFAULT_DIOCESE :: string where
  "DEFAULT_DIOCESE = ''united-states''"

definition isValidDiocese :: "string \<Rightarrow> bool" where
  "isValidDiocese diocese = (diocese \<in> set SUPPORTED_DIOCESES)"

text \<open>\<open>DIOCESE_TO_COUNTRY[diocese] || diocese\<close>: the left operand unless it is falsy
  (\<open>undefined\<close> or the empty string).\<close>

definition dioceseToCountry :: "string \<Rightarrow> jsvalue" where
  "dioceseToCountry diocese =
     (case get_property DIOCESE_TO_COUNTRY diocese of
        None \<Rightarrow> JSString diocese
      | Some (JSString v) \<Rightarrow> if v = [] then JSString diocese else JSString v
      | Some (ProtoMember m) \<Rightarrow> ProtoMember m)"

subsection \<open>The engine's day record and the public response\<close>

text \<open>
  \<open>RomcalDay\<close> as src/types declares it. A field the code reads through \<open>?.\<close> or \<open>|| ''\<close> is
  an option, \<open>None\<close> for \<open>undefined\<close>. The \<open>moment\<close> is an ISO string or an object with a
  \<open>format\<close> method.
\<close>

record KeyValue =
  key :: string
  "value" :: string

datatype Moment = MomentString string | MomentObject "string \<Rightarrow> string"

datatype LiturgicalColor = Single KeyValue | Multiple "KeyValue list"

record Meta =
  titles :: "string list option"
  liturgicalColor :: "LiturgicalColor option"

record Data =
  season :: "KeyValue option"
  meta :: "Meta option"
  prioritized :: "bool option"

record RomcalDay =
  moment :: Moment
  type :: "string option"
  name :: "string option"
  key :: "string option"
  source :: string
  data :: "Data option"

record LiturgicalDayResponse =
  date :: string
  id :: string
  name :: string
  rank :: string
  season :: string
  color :: "string list"
  isFeast :: bool
  isSolemnity :: bool
  isOptional :: bool

subsection \<open>The calendar cache\<close>

text \<open>
  The external engine \<open>calendarFor\<close> is a parameter: a function of the year and the country
  that returns the year's records or throws (\<open>Inl\<close>). The module's state is the cache, a
  map from cache key to the date-keyed map of one year. \<open>trace\<close> is not a variable of the
  program: it records, in order, each operation on the cache, each call of the engine and
  each line written to the console, so that a theorem can say which of them an operation
  performed.
\<close>

type_synonym 'e engine = "number \<Rightarrow> string \<Rightarrow> 'e + RomcalDay list"

datatype 'e event =
    CacheHas string
  | CacheGet string
  | CacheSet string
  | CacheClear
  | EngineCall number string
  | ConsoleError string 'e

record 'e state =
  calendarCache :: "string \<rightharpoonup> (string \<rightharpoonup> RomcalDay)"
  trace :: "'e event list"

definition initial_state :: "'e state" where
  "initial_state = \<lparr>calendarCache = Map.empty, trace = []\<rparr>"

definition emit :: "'e event \<Rightarrow> 'e state \<Rightarrow> 'e state" where
  "emit ev s = s\<lparr>trace := trace s @ [ev]\<rparr>"

text \<open>
  The date string of a record, as both \<open>getCalendar\<close> and \<open>toLiturgicalDayResponse\<close> extract
  it: the part of a string moment before its first \<open>T\<close> (\<open>split('T')[0]\<close>, which is never
  \<open>undefined\<close>), or what the moment object's \<open>format\<close> returns.
\<close>

definition dateStr_of :: "RomcalDay \<Rightarrow> string" where
  "dateStr_of day =
     (case moment day of
        MomentString m \<Rightarrow> takeWhile (\<lambda>c. c \<noteq> CHR ''T'') m
      | MomentObject format \<Rightarrow> format ''YYYY-MM-DD'')"

text \<open>The loop of \<open>getCalendar\<close> over the engine's list; an empty date string is falsy.\<close>

fun dateMap_loop :: "(string \<rightharpoonup> RomcalDay) \<Rightarrow> RomcalDay list \<Rightarrow> (string \<rightharpoonup> RomcalDay)" where
  "dateMap_loop dateMap [] = dateMap"
| "dateMap_loop dateMap (day # calendar) =
     (let dateStr = dateStr_of day
      in dateMap_loop (if dateStr \<noteq> [] then dateMap(dateStr \<mapsto> day) else dateMap) calendar)"

definition cacheKey_of :: "number \<Rightarrow> string \<Rightarrow> string" where
  "cacheKey_of year country = String_of year @ ''-'' @ country"

definition getCalendar ::
  "'e engine \<Rightarrow> number \<Rightarrow> string \<Rightarrow> 'e state \<Rightarrow> ('e + (string \<rightharpoonup> RomcalDay)) \<times> 'e state" where
  "getCalendar calendarFor year country s =
     (let cacheKey = cacheKey_of year country;
          s1 = emit (CacheHas cacheKey) s
      in case calendarCache s1 cacheKey of
           Some cached \<Rightarrow> (Inr cached, emit (CacheGet cacheKey) s1)
         | None \<Rightarrow>
             (let s2 = emit (EngineCall year country) s1
              in case calendarFor year country of
                   Inl thrown \<Rightarrow> (Inl thrown, s2)
                 | Inr calendar \<Rightarrow>
                     (let dateMap = dateMap_loop Map.empty calendar;
                          s3 = emit (CacheSet cacheKey)
                                 (s2\<lparr>calendarCache := (calendarCache s2)(cacheKey \<mapsto> dateMap)\<rparr>)
                      in (Inr dateMap, s3))))"

definition clearCalendarCache :: "'e state \<Rightarrow> 'e state" where
  "clearCalendarCache s = emit CacheClear (s\<lparr>calendarCache := Map.empty\<rparr>)"

subsection \<open>The response normalizer\<close>

text \<open>
  \<open>String.prototype.toLowerCase\<close> is the host's: it lowercases every cased letter of the
  string, by the Unicode tables of the runtime. It is the parameter \<open>toLowerCase\<close> of the
  normalizer and of the resolver that calls it, so what is proved holds for whatever the
  host's function does.
\<close>

text \<open>\<open>x || ''\<close> on a string that may be \<open>undefined\<close>.\<close>

definition or_empty :: "string option \<Rightarrow> string" where
  "or_empty x = (case x of None \<Rightarrow> [] | Some v \<Rightarrow> if v = [] then [] else v)"

definition toLiturgicalDayResponse :: "(string \<Rightarrow> string) \<Rightarrow> RomcalDay \<Rightarrow> LiturgicalDayResponse" where
  "toLiturgicalDayResponse toLowerCase day =
     (let dateStr = dateStr_of day;
          colors = (case Option.bind (Option.bind (data day) meta) liturgicalColor of
                      None \<Rightarrow> []
                    | Some (Multiple colorData) \<Rightarrow> [] @ map (\<lambda>c. toLowerCase (KeyValue.key c)) colorData
                    | Some (Single colorData) \<Rightarrow> [] @ [toLowerCase (KeyValue.key colorData)]);
          type = or_empty (RomcalDay.type day);
          isSolemnity = (type = ''SOLEMNITY'');
          isFeast = (type = ''FEAST'');
          isOptional = (type = ''OPT_MEMORIAL'')
      in \<lparr>date = dateStr,
          id = or_empty (key day),
          name = or_empty (RomcalDay.name day),
          rank = type,
          season = or_empty (map_option KeyValue.key (Option.bind (data day) Data.season)),
          color = colors,
          isFeast = isFeast,
          isSolemnity = isSolemnity,
          isOptional = isOptional\<rparr>)"

subsection \<open>The day resolver\<close>

text \<open>
  An \<open>async\<close> function settles with a value (\<open>Inr\<close>) or rejects with what was thrown
  (\<open>Inl\<close>). \<open>resolve_try\<close> is the body of the \<open>try\<close> block, which throws when the engine
  does; \<open>getLiturgicalDay\<close> adds the guard before it and the \<open>catch\<close> after it. An omitted
  \<open>diocese\<close> argument (\<open>None\<close>) takes the default; \<open>date_arg\<close> is the parameter \<open>date\<close>.
  After the guard the country is a string (\<open>isValidDiocese_country\<close> below), so the second
  case of \<open>country_string\<close> is never taken there.
\<close>

definition country_string :: "jsvalue \<Rightarrow> string" where
  "country_string v = (case v of JSString c \<Rightarrow> c | ProtoMember m \<Rightarrow> m)"

definition resolve_try ::
  "'e engine \<Rightarrow> (string \<Rightarrow> string) \<Rightarrow> number \<Rightarrow> string \<Rightarrow> string \<Rightarrow> 'e state
     \<Rightarrow> ('e + LiturgicalDayResponse option) \<times> 'e state" where
  "resolve_try calendarFor toLowerCase year country dateStr s =
     (case getCalendar calendarFor year country s of
        (Inl thrown, s') \<Rightarrow> (Inl thrown, s')
      | (Inr calendar, s') \<Rightarrow>
          (case calendar dateStr of
             None \<Rightarrow> (Inr None, s')
           | Some day \<Rightarrow> (Inr (Some (toLiturgicalDayResponse toLowerCase day)), s')))"

definition diocese_of :: "string option \<Rightarrow> string" where
  "diocese_of diocese_arg = (case diocese_arg of None \<Rightarrow> DEFAULT_DIOCESE | Some d \<Rightarrow> d)"

definition getLiturgicalDay ::
  "'e engine \<Rightarrow> LocalTZA \<Rightarrow> (string \<Rightarrow> string) \<Rightarrow> Date \<Rightarrow> string option \<Rightarrow> 'e state
     \<Rightarrow> ('e + LiturgicalDayResponse option) \<times> 'e state" where
  "getLiturgicalDay calendarFor tza toLowerCase date_arg diocese_arg s =
     (let diocese = diocese_of diocese_arg
      in if \<not> isValidDiocese diocese then (Inr None, s)
         else
           (let year = getFullYear tza date_arg;
                country = country_string (dioceseToCountry diocese);
                dateStr = formatDate tza date_arg
            in case resolve_try calendarFor toLowerCase year country dateStr s of
                 (Inl error, s') \<Rightarrow>
                   (Inr None,
                    emit (ConsoleError (''Error getting liturgical day for '' @ dateStr
                                          @ '' in '' @ diocese @ '':'') error) s')
               | (Inr result, s') \<Rightarrow> (Inr result, s')))"

subsection \<open>Notions the properties are stated with, and concrete inputs\<close>

text \<open>A memorial with two colours, as the engine reports one.\<close>

definition memorial_day :: RomcalDay where
  "memorial_day =
     \<lparr>moment = MomentString ''2026-01-28T00:00:00.000Z'', type = Some ''MEMORIAL'',
      RomcalDay.name = Some ''Saint Thomas Aquinas'', key = Some ''saintThomasAquinas'',
      source = ''c'',
      data = Some \<lparr>Data.season = Some \<lparr>KeyValue.key = ''ORDINARY_TIME'', value = ''Ordinary Time''\<rparr>,
                    meta = Some \<lparr>titles = None,
                                 liturgicalColor = Some (Multiple [\<lparr>KeyValue.key = ''WHITE'', value = ''White''\<rparr>,
                                                                   \<lparr>KeyValue.key = ''Gold'', value = ''Gold''\<rparr>])\<rparr>,
                    prioritized = None\<rparr>\<rparr>"

text \<open>
  The Gregorian calendar in the spec's words, for comparison with what \<open>parseDate\<close> accepts:
  a year is a leap year when 4 divides it, unless 100 does and 400 does not; a date is
  possible when its month is 1 to 12 and its day is 1 to the length of that month.
\<close>

definition is_leap_year :: "int \<Rightarrow> bool" where
  "is_leap_year y = (if y mod 4 \<noteq> 0 then False else if y mod 100 \<noteq> 0 then True else y mod 400 = 0)"

definition days_in_month :: "int \<Rightarrow> int \<Rightarrow> int" where
  "days_in_month y m =
     (if m = 2 then (if is_leap_year y then 29 else 28)
      else if m = 4 \<or> m = 6 \<or> m = 9 \<or> m = 11 then 30 else 31)"

definition possible_date :: "int \<Rightarrow> int \<Rightarrow> int \<Rightarrow> bool" where
  "possible_date y m d = (1 \<le> m \<and> m \<le> 12 \<and> 1 \<le> d \<and> d \<le> days_in_month y m)"

text \<open>The three integers \<open>parseDate\<close> reads from a string that matches the pattern.\<close>

definition date_fields :: "string \<Rightarrow> (int \<times> int \<times> int) option" where
  "date_fields s =
     (case dateRegex_match s of
        None \<Rightarrow> None
      | Some (yearStr, monthStr, dayStr) \<Rightarrow>
          Some (int (digits_val yearStr), int (digits_val monthStr), int (digits_val dayStr)))"

text \<open>\<open>parseDate\<close> after the pattern has matched, as a function of the three integers read.\<close>

definition checked_date :: "int \<Rightarrow> int \<Rightarrow> int \<Rightarrow> Date option" where
  "checked_date y m d =
     (let date = new_Date (Date_UTC (Some y) (Some (m - 1)) (Some d))
      in if strict_ne (getUTCFullYear date) (Some y)
            \<or> strict_ne (getUTCMonth date) (Some (m - 1))
            \<or> strict_ne (getUTCDate date) (Some d)
         then None else Some date)"

text \<open>
  The year, the country and the cache key of a request, as \<open>getLiturgicalDay\<close> computes them
  after its guard.
\<close>

definition request_year :: "LocalTZA \<Rightarrow> Date \<Rightarrow> number" where
  "request_year tza date_arg = getFullYear tza date_arg"

definition request_country :: "string option \<Rightarrow> string" where
  "request_country diocese_arg = country_string (dioceseToCountry (diocese_of diocese_arg))"

definition request_key :: "LocalTZA \<Rightarrow> Date \<Rightarrow> string option \<Rightarrow> string" where
  "request_key tza date_arg diocese_arg =
     cacheKey_of (request_year tza date_arg) (request_country diocese_arg)"

text \<open>The engine invocations a state's trace records.\<close>

definition is_EngineCall :: "'e event \<Rightarrow> bool" where
  "is_EngineCall ev = (case ev of EngineCall year country \<Rightarrow> True | _ \<Rightarrow> False)"

definition engine_calls :: "'e state \<Rightarrow> 'e event list" where
  "engine_calls s = filter is_EngineCall (trace s)"

text \<open>
  The first of two equal calls ended in a caught engine fault: the diocese passed the guard,
  the cache had no entry for the request's key, and the engine threw.
\<close>

definition first_call_engine_fault ::
  "'e engine \<Rightarrow> LocalTZA \<Rightarrow> Date \<Rightarrow> string option \<Rightarrow> 'e state \<Rightarrow> bool" where
  "first_call_engine_fault calendarFor tza date_arg diocese_arg s =
     (isValidDiocese (diocese_of diocese_arg)
      \<and> calendarCache s (request_key tza date_arg diocese_arg) = None
      \<and> isl (calendarFor (request_year tza date_arg) (request_country diocese_arg)))"

text \<open>
  The states the module can be in: the empty cache at start, then any sequence of calls of
  \<open>getLiturgicalDay\<close>, of \<open>getCalendar\<close> (all that \<open>getCalendarForYear\<close> does to the state
  but for its console line) and of \<open>clearCalendarCache\<close>.
\<close>

inductive reachable :: "'e engine \<Rightarrow> LocalTZA \<Rightarrow> 'e state \<Rightarrow> bool"
  for calendarFor :: "'e engine" and tza :: LocalTZA where
    start: "reachable calendarFor tza initial_state"
  | resolve: "reachable calendarFor tza s \<Longrightarrow>
       reachable calendarFor tza (snd (getLiturgicalDay calendarFor tza toLowerCase date_arg diocese_arg s))"
  | calendar: "reachable calendarFor tza s \<Longrightarrow>
       reachable calendarFor tza (snd (getCalendar calendarFor year country s))"
  | clear: "reachable calendarFor tza s \<Longrightarrow> reachable calendarFor tza (clearCalendarCache s)"

text \<open>
  A cache entry is complete: it is the map built from the whole list the engine returns for
  the year and country of its key, and it binds the date string of every record of that
  list whose date string is not empty.
\<close>

definition entry_complete :: "'e engine \<Rightarrow> string \<Rightarrow> (string \<rightharpoonup> RomcalDay) \<Rightarrow> bool" where
  "entry_complete calendarFor k entry =
     (\<exists>year country calendar.
        k = cacheKey_of year country \<and> calendarFor year country = Inr calendar
        \<and> entry = dateMap_loop Map.empty calendar
        \<and> (\<forall>day \<in> set calendar. dateStr_of day \<noteq> [] \<longrightarrow> dateStr_of day \<in> dom entry))"

text \<open>
  The stronger reading of a complete entry: it binds the date string of every record the
  engine returns for the year and country of its key, the empty date string included.
\<close>

definition binds_every_record :: "'e engine \<Rightarrow> string \<Rightarrow> (string \<rightharpoonup> RomcalDay) \<Rightarrow> bool" where
  "binds_every_record calendarFor k entry =
     (\<exists>year country calendar.
        k = cacheKey_of year country \<and> calendarFor year country = Inr calendar
        \<and> (\<forall>day \<in> set calendar. dateStr_of day \<in> dom entry))"

text \<open>Two hosts: one on UTC, one five hours west of it.\<close>

definition utc :: LocalTZA where
  "utc t = 0"

definition utc_minus_5 :: LocalTZA where
  "utc_minus_5 t = - 18000000"

text \<open>Midnight UTC of 25 December 2026, as \<open>new Date(Date.UTC(2026, 11, 25))\<close> makes it.\<close>

definition christmas_2026 :: Date where
  "christmas_2026 = Date (Some 1798156800000)"

text \<open>Midnight UTC of 28 January 2026, the day of \<open>memorial_day\<close>.\<close>

definition january_28_2026 :: Date where
  "january_28_2026 = Date (Some 1769558400000)"

text \<open>An engine that throws on every call, and one whose first record has no date.\<close>

definition failing_engine :: "string engine" where
  "failing_engine year country = Inl ''engine fault''"

definition undated_day :: RomcalDay where
  "undated_day = memorial_day\<lparr>moment := MomentString []\<rparr>"

definition undated_engine :: "string engine" where
  "undated_engine year country = Inr [undated_day, memorial_day]"

text \<open>
  What \<open>toLowerCase\<close> does on a string of ASCII characters, as the colour keys of the
  concrete records are: the letters A to Z move to a to z, the rest stay.
\<close>

definition toLowerCase_ascii :: "string \<Rightarrow> string" where
  "toLowerCase_ascii s =
     map (\<lambda>c. if 65 \<le> (of_char c :: nat) \<and> (of_char c :: nat) \<le> 90
               then char_of ((of_char c :: nat) + 32) else c) s"

text \<open>The same record raised to a solemnity.\<close>

definition solemnity_day :: RomcalDay where
  "solemnity_day = memorial_day\<lparr>type := Some ''SOLEMNITY''\<rparr>"

text \<open>The raw colour field of a record: absent when \<open>data\<close>, \<open>meta\<close> or the field itself is.\<close>

definition raw_color :: "RomcalDay \<Rightarrow> LiturgicalColor option" where
  "raw_color day =
     (case data day of None \<Rightarrow> None
      | Some d \<Rightarrow> (case meta d of None \<Rightarrow> None | Some m \<Rightarrow> liturgicalColor m))"

section \<open>Properties of the diocese registry\<close>

lemma isValidDiocese_country:
  "isValidDiocese diocese \<Longrightarrow> \<exists>c. dioceseToCountry diocese = JSString c"
  by (auto simp: isValidDiocese_def SUPPORTED_DIOCESES_def dioceseToCountry_def get_property_def
      DIOCESE_TO_COUNTRY_def)

lemma map_of_DIOCESE_None:
  "diocese \<notin> set SUPPORTED_DIOCESES \<Longrightarrow> map_of DIOCESE_TO_COUNTRY diocese = None"
  by (simp add: SUPPORTED_DIOCESES_def DIOCESE_TO_COUNTRY_def)

text \<open>
  C7 does not hold of the code. \<open>constructor\<close> is a code outside the supported set, as
  \<open>isValidDiocese\<close> says, and \<open>dioceseToCountry\<close> does not return it unchanged: the property
  read finds the constructor every object inherits, which is truthy, so \<open>||\<close> returns that
  function and not the input string.
\<close>

theorem dioceseToCountry_constructor:
  "\<not> isValidDiocese ''constructor''
   \<and> dioceseToCountry ''constructor'' = ProtoMember ''constructor''
   \<and> dioceseToCountry ''constructor'' \<noteq> JSString ''constructor''"
  by (simp add: isValidDiocese_def SUPPORTED_DIOCESES_def dioceseToCountry_def get_property_def
      DIOCESE_TO_COUNTRY_def Object_prototype_keys_def)

text \<open>
  What does hold: \<open>dioceseToCountry\<close> maps \<open>united-states\<close> to \<open>unitedStates\<close> and each of
  \<open>england\<close>, \<open>italy\<close>, \<open>france\<close>, \<open>spain\<close>, \<open>germany\<close> to itself, and it returns unchanged every
  other string that is not the name of a property inherited from \<open>Object.prototype\<close>.
\<close>

lemma dioceseToCountry_mapping:
  "dioceseToCountry ''united-states'' = JSString ''unitedStates''
   \<and> dioceseToCountry ''england'' = JSString ''england''
   \<and> dioceseToCountry ''italy'' = JSString ''italy''
   \<and> dioceseToCountry ''france'' = JSString ''france''
   \<and> dioceseToCountry ''spain'' = JSString ''spain''
   \<and> dioceseToCountry ''germany'' = JSString ''germany''
   \<and> (\<not> isValidDiocese diocese \<longrightarrow> diocese \<notin> set Object_prototype_keys
        \<longrightarrow> dioceseToCountry diocese = JSString diocese)"
proof -
  have six: "dioceseToCountry ''united-states'' = JSString ''unitedStates''"
    "dioceseToCountry ''england'' = JSString ''england''"
    "dioceseToCountry ''italy'' = JSString ''italy''"
    "dioceseToCountry ''france'' = JSString ''france''"
    "dioceseToCountry ''spain'' = JSString ''spain''"
    "dioceseToCountry ''germany'' = JSString ''germany''"
    by (simp_all add: dioceseToCountry_def get_property_def DIOCESE_TO_COUNTRY_def)
  have other: "dioceseToCountry diocese = JSString diocese"
    if "\<not> isValidDiocese diocese" "diocese \<notin> set Object_prototype_keys"
    using that map_of_DIOCESE_None [of diocese]
    by (simp add: dioceseToCountry_def get_property_def isValidDiocese_def)
  show ?thesis using six other by blast
qed

lemma dioceseToCountry_unknown:
  "\<not> isValidDiocese ''unknown'' \<and> ''unknown'' \<notin> set Object_prototype_keys
   \<and> dioceseToCountry ''unknown'' = JSString ''unknown''"
proof -
  have a: "\<not> isValidDiocese ''unknown''"
    by (simp add: isValidDiocese_def SUPPORTED_DIOCESES_def)
  have b: "''unknown'' \<notin> set Object_prototype_keys"
    by (simp add: Object_prototype_keys_def)
  show ?thesis using a b dioceseToCountry_mapping [of "''unknown''"] by blast
qed

section \<open>Properties of the response normalizer\<close>

text \<open>
  C8: the rank of a normalized response is the raw record's type (the empty string when the
  type is absent); \<open>isSolemnity\<close> holds iff the rank is \<open>SOLEMNITY\<close>, \<open>isFeast\<close> iff it is
  \<open>FEAST\<close>, \<open>isOptional\<close> iff it is \<open>OPT_MEMORIAL\<close>; no two flags hold together; and for any
  other rank all three are false. The normalizer is a total function, so there is no
  error to raise.
\<close>

theorem rank_flags:
  "rank (toLiturgicalDayResponse toLowerCase day) = or_empty (type day)
   \<and> isSolemnity (toLiturgicalDayResponse toLowerCase day) = (or_empty (type day) = ''SOLEMNITY'')
   \<and> isFeast (toLiturgicalDayResponse toLowerCase day) = (or_empty (type day) = ''FEAST'')
   \<and> isOptional (toLiturgicalDayResponse toLowerCase day) = (or_empty (type day) = ''OPT_MEMORIAL'')
   \<and> isSolemnity (toLiturgicalDayResponse toLowerCase day)
        = (rank (toLiturgicalDayResponse toLowerCase day) = ''SOLEMNITY'')
   \<and> isFeast (toLiturgicalDayResponse toLowerCase day)
        = (rank (toLiturgicalDayResponse toLowerCase day) = ''FEAST'')
   \<and> isOptional (toLiturgicalDayResponse toLowerCase day)
        = (rank (toLiturgicalDayResponse toLowerCase day) = ''OPT_MEMORIAL'')
   \<and> \<not> (isSolemnity (toLiturgicalDayResponse toLowerCase day)
          \<and> isFeast (toLiturgicalDayResponse toLowerCase day))
   \<and> \<not> (isSolemnity (toLiturgicalDayResponse toLowerCase day)
          \<and> isOptional (toLiturgicalDayResponse toLowerCase day))
   \<and> \<not> (isFeast (toLiturgicalDayResponse toLowerCase day)
          \<and> isOptional (toLiturgicalDayResponse toLowerCase day))
   \<and> (rank (toLiturgicalDayResponse toLowerCase day) \<notin> {''SOLEMNITY'', ''FEAST'', ''OPT_MEMORIAL''}
        \<longrightarrow> \<not> isSolemnity (toLiturgicalDayResponse toLowerCase day)
            \<and> \<not> isFeast (toLiturgicalDayResponse toLowerCase day)
            \<and> \<not> isOptional (toLiturgicalDayResponse toLowerCase day))"
  by (simp add: toLiturgicalDayResponse_def Let_def)

theorem rank_flags_witness:
  "rank (toLiturgicalDayResponse toLowerCase_ascii memorial_day) = ''MEMORIAL''
   \<and> rank (toLiturgicalDayResponse toLowerCase_ascii memorial_day)
        \<notin> {''SOLEMNITY'', ''FEAST'', ''OPT_MEMORIAL''}
   \<and> \<not> isSolemnity (toLiturgicalDayResponse toLowerCase_ascii memorial_day)
   \<and> \<not> isFeast (toLiturgicalDayResponse toLowerCase_ascii memorial_day)
   \<and> \<not> isOptional (toLiturgicalDayResponse toLowerCase_ascii memorial_day)
   \<and> rank (toLiturgicalDayResponse toLowerCase_ascii solemnity_day) = ''SOLEMNITY''
   \<and> isSolemnity (toLiturgicalDayResponse toLowerCase_ascii solemnity_day)
   \<and> \<not> isFeast (toLiturgicalDayResponse toLowerCase_ascii solemnity_day)
   \<and> \<not> isOptional (toLiturgicalDayResponse toLowerCase_ascii solemnity_day)"
proof -
  have m: "or_empty (type memorial_day) = ''MEMORIAL''"
    by (simp add: memorial_day_def or_empty_def)
  have s: "or_empty (type solemnity_day) = ''SOLEMNITY''"
    by (simp add: solemnity_day_def or_empty_def)
  show ?thesis
    using rank_flags [of toLowerCase_ascii memorial_day] rank_flags [of toLowerCase_ascii solemnity_day]
    by (simp add: m s)
qed

text \<open>
  C9: the response's colour list is empty when the raw colour field is absent, holds the one
  identifier, lowercased by the host's \<open>toLowerCase\<close>, when the field is a single value, and
  holds the lowercased identifier of each element, in the engine's order, when the field is
  a list.
\<close>

theorem color_list:
  "color (toLiturgicalDayResponse toLowerCase day) =
     (case raw_color day of
        None \<Rightarrow> []
      | Some (Single c) \<Rightarrow> [toLowerCase (KeyValue.key c)]
      | Some (Multiple cs) \<Rightarrow> map (\<lambda>c. toLowerCase (KeyValue.key c)) cs)"
  by (simp add: toLiturgicalDayResponse_def raw_color_def Let_def
      split: option.splits LiturgicalColor.splits)

theorem color_list_witness:
  "color (toLiturgicalDayResponse toLowerCase_ascii memorial_day) = [''white'', ''gold'']"
proof -
  have "raw_color memorial_day = Some (Multiple [\<lparr>KeyValue.key = ''WHITE'', value = ''White''\<rparr>,
                                                   \<lparr>KeyValue.key = ''Gold'', value = ''Gold''\<rparr>])"
    by (simp add: raw_color_def memorial_day_def)
  moreover have "toLowerCase_ascii ''WHITE'' = ''white''" "toLowerCase_ascii ''Gold'' = ''gold''"
    by code_simp+
  ultimately show ?thesis using color_list [of toLowerCase_ascii memorial_day] by simp
qed

section \<open>Properties of the calendar cache and the day resolver\<close>

subsection \<open>One call of getCalendar, one call of getLiturgicalDay\<close>

lemma engine_calls_emit:
  "engine_calls (emit ev s) = engine_calls s @ (if is_EngineCall ev then [ev] else [])"
  by (simp add: engine_calls_def emit_def)

lemma engine_calls_cache_update: "engine_calls (s\<lparr>calendarCache := c\<rparr>) = engine_calls s"
  by (simp add: engine_calls_def)

lemma calendarCache_emit: "calendarCache (emit ev s) = calendarCache s"
  by (simp add: emit_def)

lemma is_EngineCall_simps:
  "is_EngineCall (EngineCall y c)" "\<not> is_EngineCall (CacheHas k)" "\<not> is_EngineCall (CacheGet k)"
  "\<not> is_EngineCall (CacheSet k)" "\<not> is_EngineCall CacheClear" "\<not> is_EngineCall (ConsoleError m e)"
  by (simp_all add: is_EngineCall_def)

lemma getCalendar_hit:
  assumes "calendarCache s (cacheKey_of year country) = Some cached"
  shows "fst (getCalendar calendarFor year country s) = Inr cached"
    and "calendarCache (snd (getCalendar calendarFor year country s)) = calendarCache s"
    and "engine_calls (snd (getCalendar calendarFor year country s)) = engine_calls s"
  using assms
  by (simp_all add: getCalendar_def Let_def calendarCache_emit engine_calls_emit is_EngineCall_simps
      engine_calls_cache_update)

lemma getCalendar_miss:
  assumes "calendarCache s (cacheKey_of year country) = None"
    and "calendarFor year country = Inr calendar"
  shows "fst (getCalendar calendarFor year country s) = Inr (dateMap_loop Map.empty calendar)"
    and "calendarCache (snd (getCalendar calendarFor year country s))
           = (calendarCache s)(cacheKey_of year country \<mapsto> dateMap_loop Map.empty calendar)"
    and "engine_calls (snd (getCalendar calendarFor year country s))
           = engine_calls s @ [EngineCall year country]"
  using assms
  by (simp_all add: getCalendar_def Let_def calendarCache_emit engine_calls_emit is_EngineCall_simps
      engine_calls_cache_update)

lemma getCalendar_throw:
  assumes "calendarCache s (cacheKey_of year country) = None"
    and "calendarFor year country = Inl thrown"
  shows "fst (getCalendar calendarFor year country s) = Inl thrown"
    and "calendarCache (snd (getCalendar calendarFor year country s)) = calendarCache s"
    and "engine_calls (snd (getCalendar calendarFor year country s))
           = engine_calls s @ [EngineCall year country]"
  using assms
  by (simp_all add: getCalendar_def Let_def calendarCache_emit engine_calls_emit is_EngineCall_simps
      engine_calls_cache_update)

lemma resolve_invalid:
  "\<not> isValidDiocese (diocese_of diocese_arg) \<Longrightarrow>
     getLiturgicalDay calendarFor tza toLowerCase date_arg diocese_arg s = (Inr None, s)"
  by (simp add: getLiturgicalDay_def)

lemma resolve_valid:
  assumes "isValidDiocese (diocese_of diocese_arg)"
  shows "fst (getLiturgicalDay calendarFor tza toLowerCase date_arg diocese_arg s) =
           (case fst (getCalendar calendarFor (request_year tza date_arg) (request_country diocese_arg) s) of
              Inl thrown \<Rightarrow> Inr None
            | Inr calendar \<Rightarrow> Inr (map_option (toLiturgicalDayResponse toLowerCase) (calendar (formatDate tza date_arg))))"
    and "calendarCache (snd (getLiturgicalDay calendarFor tza toLowerCase date_arg diocese_arg s)) =
           calendarCache (snd (getCalendar calendarFor (request_year tza date_arg) (request_country diocese_arg) s))"
    and "engine_calls (snd (getLiturgicalDay calendarFor tza toLowerCase date_arg diocese_arg s)) =
           engine_calls (snd (getCalendar calendarFor (request_year tza date_arg) (request_country diocese_arg) s))"
  using assms
  by (simp_all add: getLiturgicalDay_def resolve_try_def Let_def request_year_def request_country_def
      calendarCache_emit engine_calls_emit is_EngineCall_simps
      split: prod.splits sum.splits option.splits)

lemma getLiturgicalDay_not_Inl:
  "fst (getLiturgicalDay calendarFor tza toLowerCase date_arg diocese_arg s) \<noteq> Inl thrown"
proof (cases "isValidDiocese (diocese_of diocese_arg)")
  case False
  then show ?thesis by (simp add: resolve_invalid)
next
  case True
  show ?thesis
    by (simp add: resolve_valid(1) [OF True] split: sum.splits)
qed

subsection \<open>The map built from the engine's list\<close>

lemma find_snoc:
  "List.find P (xs @ [x]) =
     (case List.find P xs of Some y \<Rightarrow> Some y | None \<Rightarrow> if P x then Some x else None)"
  by (induction xs) auto

lemma dateMap_loop_lookup:
  "dateMap_loop m calendar k =
     (case List.find (\<lambda>day. dateStr_of day = k) (rev calendar) of
        Some day \<Rightarrow> if k = [] then m k else Some day
      | None \<Rightarrow> m k)"
proof (induction calendar arbitrary: m)
  case Nil
  then show ?case by simp
next
  case (Cons day calendar)
  show ?case
    by (simp add: Cons.IH find_snoc Let_def split: option.splits)
qed

lemma dateMap_loop_bound:
  assumes "day \<in> set calendar" and "dateStr_of day \<noteq> []"
  shows "\<exists>bound. dateMap_loop Map.empty calendar (dateStr_of day) = Some bound"
proof -
  have "List.find (\<lambda>d. dateStr_of d = dateStr_of day) (rev calendar) \<noteq> None"
    using assms(1) by (auto simp: find_None_iff)
  then show ?thesis
    using assms(2) by (auto simp: dateMap_loop_lookup split: option.splits)
qed

subsection \<open>The concrete requests\<close>

lemma january_28_2026_year: "request_year utc january_28_2026 = Some 2026"
  unfolding request_year_def january_28_2026_def utc_def by code_simp

lemma january_28_2026_format: "formatDate utc january_28_2026 = ''2026-01-28''"
  unfolding january_28_2026_def utc_def by code_simp

lemma default_country: "request_country None = ''unitedStates''"
  by (simp add: request_country_def country_string_def diocese_of_def DEFAULT_DIOCESE_def
      dioceseToCountry_def get_property_def DIOCESE_TO_COUNTRY_def)

lemma default_valid: "isValidDiocese (diocese_of None)"
  by (simp add: diocese_of_def DEFAULT_DIOCESE_def isValidDiocese_def SUPPORTED_DIOCESES_def)

lemma key_2026_unitedStates: "cacheKey_of (Some 2026) ''unitedStates'' = ''2026-unitedStates''"
  by code_simp


lemma dateStr_of_memorial_day: "dateStr_of memorial_day = ''2026-01-28''"
  by (simp add: dateStr_of_def memorial_day_def)

lemma dateStr_of_undated_day: "dateStr_of undated_day = []"
  by (simp add: dateStr_of_def undated_day_def)

lemma undated_dateMap:
  "dateMap_loop Map.empty [undated_day, memorial_day] = [''2026-01-28'' \<mapsto> memorial_day]"
  by (simp add: dateStr_of_memorial_day dateStr_of_undated_day Let_def)

lemma initial_cache: "calendarCache initial_state = Map.empty"
  by (simp add: initial_state_def)

lemma undated_first_call:
  "fst (getLiturgicalDay undated_engine utc toLowerCase_ascii january_28_2026 None initial_state)
     = Inr (Some (toLiturgicalDayResponse toLowerCase_ascii memorial_day))"
  "calendarCache (snd (getLiturgicalDay undated_engine utc toLowerCase_ascii january_28_2026 None initial_state))
     = [''2026-unitedStates'' \<mapsto> [''2026-01-28'' \<mapsto> memorial_day]]"
proof -
  have none: "calendarCache (initial_state :: string state) (cacheKey_of (Some 2026) ''unitedStates'') = None"
    by (simp add: initial_state_def)
  have eng: "undated_engine (Some 2026) ''unitedStates'' = Inr [undated_day, memorial_day]"
    by (simp add: undated_engine_def)
  note miss = getCalendar_miss [where calendarFor = undated_engine, OF none eng, unfolded undated_dateMap]
  show "fst (getLiturgicalDay undated_engine utc toLowerCase_ascii january_28_2026 None initial_state)
     = Inr (Some (toLiturgicalDayResponse toLowerCase_ascii memorial_day))"
    by (simp add: resolve_valid(1) [OF default_valid] january_28_2026_year default_country miss(1)
        january_28_2026_format)
  show "calendarCache (snd (getLiturgicalDay undated_engine utc toLowerCase_ascii january_28_2026 None initial_state))
     = [''2026-unitedStates'' \<mapsto> [''2026-01-28'' \<mapsto> memorial_day]]"
    by (simp add: resolve_valid(2) [OF default_valid] january_28_2026_year default_country miss(2)
        key_2026_unitedStates initial_cache)
qed

subsection \<open>The claims about the cache and the resolver\<close>

text \<open>
  C10: when \<open>getCalendar\<close> builds the entry for a key from the engine's list, the stored map
  binds each date string to the last record of the list with that date string (a later
  record overwrites an earlier one), and a record whose date string is empty is left out.
\<close>

theorem dateMap_last_record:
  assumes "calendarCache s (cacheKey_of year country) = None"
    and "calendarFor year country = Inr calendar"
  shows "\<exists>dateMap.
           calendarCache (snd (getCalendar calendarFor year country s)) (cacheKey_of year country)
             = Some dateMap
           \<and> fst (getCalendar calendarFor year country s) = Inr dateMap
           \<and> (\<forall>k. dateMap k =
                 (if k = [] then None
                  else List.find (\<lambda>day. dateStr_of day = k) (rev calendar)))"
proof -
  have "dateMap_loop Map.empty calendar k =
      (if k = [] then None else List.find (\<lambda>day. dateStr_of day = k) (rev calendar))" for k
    by (simp add: dateMap_loop_lookup split: option.splits)
  then show ?thesis
    by (simp add: getCalendar_miss [where calendarFor = calendarFor, OF assms])
qed

theorem dateMap_last_record_witness:
  "calendarCache (initial_state :: string state) (cacheKey_of (Some 2026) ''unitedStates'') = None
   \<and> undated_engine (Some 2026) ''unitedStates'' = Inr [undated_day, memorial_day]
   \<and> (\<exists>dateMap.
         fst (getCalendar undated_engine (Some 2026) ''unitedStates'' initial_state) = Inr dateMap
         \<and> dateMap ''2026-01-28'' = Some memorial_day \<and> dateMap [] = None)"
proof -
  have a: "calendarCache (initial_state :: string state) (cacheKey_of (Some 2026) ''unitedStates'') = None"
    by (simp add: initial_cache)
  have b: "undated_engine (Some 2026) ''unitedStates'' = Inr [undated_day, memorial_day]"
    by (simp add: undated_engine_def)
  obtain dateMap where
    d: "fst (getCalendar undated_engine (Some 2026) ''unitedStates'' initial_state) = Inr dateMap"
    and k: "\<And>k. dateMap k = (if k = [] then None
              else List.find (\<lambda>day. dateStr_of day = k) (rev [undated_day, memorial_day]))"
    using dateMap_last_record [where calendarFor = undated_engine, OF a b] by blast
  have "dateMap ''2026-01-28'' = Some memorial_day"
    by (simp add: k dateStr_of_memorial_day)
  moreover have "dateMap [] = None"
    by (simp add: k)
  ultimately show ?thesis using a b d by blast
qed

text \<open>
  C6: when the diocese argument fails \<open>isValidDiocese\<close>, \<open>getLiturgicalDay\<close> returns \<open>null\<close>
  and leaves the state as it was: the cache is neither read nor written and the engine is
  not called (the trace, which records each of these, is unchanged too).
\<close>

theorem invalid_diocese_untouched:
  "\<not> isValidDiocese diocese \<Longrightarrow>
     getLiturgicalDay calendarFor tza toLowerCase date_arg (Some diocese) s = (Inr None, s)"
  by (simp add: getLiturgicalDay_def diocese_of_def)

theorem invalid_diocese_untouched_witness:
  "\<not> isValidDiocese ''mexico''
   \<and> getLiturgicalDay failing_engine utc toLowerCase_ascii christmas_2026 (Some ''mexico'') initial_state
       = (Inr None, initial_state)"
proof -
  have a: "\<not> isValidDiocese ''mexico''"
    by (simp add: isValidDiocese_def SUPPORTED_DIOCESES_def)
  show ?thesis using a invalid_diocese_untouched [OF a] by simp
qed

text \<open>
  C4: \<open>getLiturgicalDay\<close> never rejects: whatever the engine does, it settles with a value.
  When the engine is called (valid diocese, no cache entry for the key) and throws, the
  value is \<open>null\<close>, and nothing is stored in the cache.
\<close>

theorem engine_fault_caught:
  "(\<forall>thrown. fst (getLiturgicalDay calendarFor tza toLowerCase date_arg diocese_arg s) \<noteq> Inl thrown)
   \<and> (isValidDiocese (diocese_of diocese_arg)
        \<and> calendarCache s (request_key tza date_arg diocese_arg) = None
        \<and> calendarFor (request_year tza date_arg) (request_country diocese_arg) = Inl fault
      \<longrightarrow> fst (getLiturgicalDay calendarFor tza toLowerCase date_arg diocese_arg s) = Inr None
          \<and> calendarCache (snd (getLiturgicalDay calendarFor tza toLowerCase date_arg diocese_arg s))
              = calendarCache s)"
proof -
  have "fst (getLiturgicalDay calendarFor tza toLowerCase date_arg diocese_arg s) = Inr None
        \<and> calendarCache (snd (getLiturgicalDay calendarFor tza toLowerCase date_arg diocese_arg s))
              = calendarCache s"
    if v: "isValidDiocese (diocese_of diocese_arg)"
      and m: "calendarCache s (cacheKey_of (request_year tza date_arg) (request_country diocese_arg)) = None"
      and t: "calendarFor (request_year tza date_arg) (request_country diocese_arg) = Inl fault"
    by (simp add: resolve_valid [OF v] getCalendar_throw [where calendarFor = calendarFor, OF m t])
  then show ?thesis
    by (simp add: getLiturgicalDay_not_Inl request_key_def)
qed

theorem engine_fault_caught_witness:
  "isValidDiocese (diocese_of None)
   \<and> calendarCache (initial_state :: string state) (request_key utc january_28_2026 None) = None
   \<and> failing_engine (request_year utc january_28_2026) (request_country None) = Inl ''engine fault''
   \<and> fst (getLiturgicalDay failing_engine utc toLowerCase_ascii january_28_2026 None initial_state) = Inr None"
proof -
  have b: "calendarCache (initial_state :: string state) (request_key utc january_28_2026 None) = None"
    by (simp add: initial_cache)
  have c: "failing_engine (request_year utc january_28_2026) (request_country None) = Inl ''engine fault''"
    by (simp add: failing_engine_def)
  show ?thesis
    using default_valid b c
      engine_fault_caught [of failing_engine utc toLowerCase_ascii january_28_2026 None initial_state "''engine fault''"]
    by blast
qed

text \<open>Two equal calls in a row: the results, and whether the second calls the engine.\<close>

lemma resolver_twice:
  "fst (getLiturgicalDay calendarFor tza toLowerCase date_arg diocese_arg
          (snd (getLiturgicalDay calendarFor tza toLowerCase date_arg diocese_arg s)))
     = fst (getLiturgicalDay calendarFor tza toLowerCase date_arg diocese_arg s)
   \<and> (engine_calls (snd (getLiturgicalDay calendarFor tza toLowerCase date_arg diocese_arg
          (snd (getLiturgicalDay calendarFor tza toLowerCase date_arg diocese_arg s))))
        = engine_calls (snd (getLiturgicalDay calendarFor tza toLowerCase date_arg diocese_arg s)))
      = (\<not> first_call_engine_fault calendarFor tza date_arg diocese_arg s)"
proof (cases "isValidDiocese (diocese_of diocese_arg)")
  case False
  then show ?thesis
    by (simp add: resolve_invalid first_call_engine_fault_def)
next
  case valid: True
  let ?y = "request_year tza date_arg" and ?c = "request_country diocese_arg"
  let ?s1 = "snd (getLiturgicalDay calendarFor tza toLowerCase date_arg diocese_arg s)"
  have key: "request_key tza date_arg diocese_arg = cacheKey_of ?y ?c"
    by (simp add: request_key_def)
  show ?thesis
  proof (cases "calendarCache s (cacheKey_of ?y ?c)")
    case (Some cached)
    have c1: "calendarCache ?s1 (cacheKey_of ?y ?c) = Some cached"
      using Some by (simp add: resolve_valid(2) [OF valid] getCalendar_hit(2))
    show ?thesis
      using Some c1
      by (simp add: resolve_valid [OF valid] getCalendar_hit first_call_engine_fault_def key)
  next
    case None
    show ?thesis
    proof (cases "calendarFor ?y ?c")
      case (Inr calendar)
      have c1: "calendarCache ?s1 (cacheKey_of ?y ?c) = Some (dateMap_loop Map.empty calendar)"
        using None Inr by (simp add: resolve_valid(2) [OF valid] getCalendar_miss(2))
      show ?thesis
        using None Inr
        by (simp add: resolve_valid [OF valid] getCalendar_hit [OF c1] getCalendar_miss
            first_call_engine_fault_def key)
    next
      case (Inl thrown)
      have c1: "calendarCache ?s1 (cacheKey_of ?y ?c) = None"
        using None Inl by (simp add: resolve_valid(2) [OF valid] getCalendar_throw(2))
      show ?thesis
        using None Inl valid
        by (simp add: resolve_valid [OF valid]
            getCalendar_throw [where calendarFor = calendarFor, OF c1 Inl]
            getCalendar_throw [where calendarFor = calendarFor, OF None Inl]
            first_call_engine_fault_def key)
    qed
  qed
qed

lemma first_call_fills_cache:
  assumes "isValidDiocese (diocese_of diocese_arg)"
    and "\<not> first_call_engine_fault calendarFor tza date_arg diocese_arg s"
  shows "calendarCache (snd (getLiturgicalDay calendarFor tza toLowerCase date_arg diocese_arg s))
           (request_key tza date_arg diocese_arg) \<noteq> None"
proof (cases "calendarCache s (request_key tza date_arg diocese_arg)")
  case (Some cached)
  then show ?thesis
    by (simp add: resolve_valid(2) [OF assms(1)] getCalendar_hit(2) request_key_def)
next
  case None
  then obtain calendar where
    e: "calendarFor (request_year tza date_arg) (request_country diocese_arg) = Inr calendar"
    using assms by (cases "calendarFor (request_year tza date_arg) (request_country diocese_arg)")
      (auto simp: first_call_engine_fault_def)
  have n: "calendarCache s (cacheKey_of (request_year tza date_arg) (request_country diocese_arg)) = None"
    using None by (simp add: request_key_def)
  show ?thesis
    by (simp add: resolve_valid(2) [OF assms(1)] request_key_def
        getCalendar_miss(2) [where calendarFor = calendarFor, OF n e])
qed

lemma failing_first_call:
  "first_call_engine_fault failing_engine utc january_28_2026 None (initial_state :: string state)"
  by (simp add: first_call_engine_fault_def default_valid initial_cache failing_engine_def)


text \<open>
  When the engine throws, nothing is cached, and the second of two equal calls invokes the
  engine again; both calls return \<open>null\<close>.
\<close>

lemma failing_engine_called_again:
  "engine_calls (snd (getLiturgicalDay failing_engine utc toLowerCase_ascii january_28_2026 None
      (snd (getLiturgicalDay failing_engine utc toLowerCase_ascii january_28_2026 None initial_state))))
   \<noteq> engine_calls (snd (getLiturgicalDay failing_engine utc toLowerCase_ascii january_28_2026 None
        initial_state))"
  using resolver_twice [of failing_engine utc toLowerCase_ascii january_28_2026 None initial_state]
    failing_first_call
  by simp



subsection \<open>The invariant of the cache\<close>

lemma entry_complete_built:
  "calendarFor year country = Inr calendar \<Longrightarrow>
     entry_complete calendarFor (cacheKey_of year country) (dateMap_loop Map.empty calendar)"
  unfolding entry_complete_def
  by (intro exI [of _ year] exI [of _ country] exI [of _ calendar]) (auto dest: dateMap_loop_bound)

lemma getCalendar_cache_cases:
  "calendarCache (snd (getCalendar calendarFor year country s)) = calendarCache s
   \<or> (\<exists>calendar. calendarFor year country = Inr calendar
        \<and> calendarCache (snd (getCalendar calendarFor year country s))
            = (calendarCache s)(cacheKey_of year country \<mapsto> dateMap_loop Map.empty calendar))"
proof (cases "calendarCache s (cacheKey_of year country)")
  case (Some cached)
  then show ?thesis by (simp add: getCalendar_hit(2))
next
  case None
  show ?thesis
  proof (cases "calendarFor year country")
    case (Inl thrown)
    show ?thesis
      by (simp add: getCalendar_throw(2) [where calendarFor = calendarFor, OF None Inl])
  next
    case (Inr calendar)
    show ?thesis
      by (simp add: getCalendar_miss(2) [where calendarFor = calendarFor, OF None Inr] Inr)
  qed
qed

lemma getLiturgicalDay_cache_cases:
  "calendarCache (snd (getLiturgicalDay calendarFor tza toLowerCase date_arg diocese_arg s)) = calendarCache s
   \<or> (\<exists>year country calendar. calendarFor year country = Inr calendar
        \<and> calendarCache (snd (getLiturgicalDay calendarFor tza toLowerCase date_arg diocese_arg s))
            = (calendarCache s)(cacheKey_of year country \<mapsto> dateMap_loop Map.empty calendar))"
proof (cases "isValidDiocese (diocese_of diocese_arg)")
  case False
  then show ?thesis by (simp add: resolve_invalid)
next
  case True
  show ?thesis
    using getCalendar_cache_cases [of calendarFor "request_year tza date_arg" "request_country diocese_arg" s]
    by (auto simp: resolve_valid(2) [OF True])
qed

lemma entries_preserved:
  assumes inv: "\<And>k entry. cache k = Some entry \<Longrightarrow> entry_complete calendarFor k entry"
    and new: "cache' = cache \<or> (\<exists>year country calendar. calendarFor year country = Inr calendar
        \<and> cache' = cache(cacheKey_of year country \<mapsto> dateMap_loop Map.empty calendar))"
    and k: "cache' k = Some entry"
  shows "entry_complete calendarFor k entry"
  using new
proof
  assume "cache' = cache"
  then show ?thesis using inv k by simp
next
  assume "\<exists>year country calendar. calendarFor year country = Inr calendar
        \<and> cache' = cache(cacheKey_of year country \<mapsto> dateMap_loop Map.empty calendar)"
  then obtain year country calendar where e: "calendarFor year country = Inr calendar"
    and c: "cache' = cache(cacheKey_of year country \<mapsto> dateMap_loop Map.empty calendar)"
    by blast
  show ?thesis
  proof (cases "k = cacheKey_of year country")
    case True
    then have "entry = dateMap_loop Map.empty calendar" using k c by simp
    then show ?thesis
      using True entry_complete_built [where calendarFor = calendarFor, OF e] by simp
  next
    case False
    then have "cache k = Some entry" using k c by simp
    then show ?thesis by (rule inv)
  qed
qed

lemma undated_reachable:
  "reachable undated_engine utc (snd (getLiturgicalDay undated_engine utc toLowerCase_ascii january_28_2026 None initial_state))"
  by (rule reachable.resolve) (rule reachable.start)

lemma undated_entry:
  "calendarCache (snd (getLiturgicalDay undated_engine utc toLowerCase_ascii january_28_2026 None initial_state))
     ''2026-unitedStates'' = Some [''2026-01-28'' \<mapsto> memorial_day]"
  by (simp add: undated_first_call(2))

text \<open>
  C5, as stated, fails: the entry is populated, and the engine's first record, whose date
  string is empty, has no binding in it.
\<close>

theorem undated_record_not_bound:
  "reachable undated_engine utc (snd (getLiturgicalDay undated_engine utc toLowerCase_ascii january_28_2026 None initial_state))
   \<and> calendarCache (snd (getLiturgicalDay undated_engine utc toLowerCase_ascii january_28_2026 None initial_state))
        ''2026-unitedStates'' = Some [''2026-01-28'' \<mapsto> memorial_day]
   \<and> \<not> binds_every_record undated_engine ''2026-unitedStates'' [''2026-01-28'' \<mapsto> memorial_day]"
proof -
  have "\<not> binds_every_record undated_engine ''2026-unitedStates'' [''2026-01-28'' \<mapsto> memorial_day]"
    by (auto simp: binds_every_record_def undated_engine_def dateStr_of_undated_day)
  then show ?thesis using undated_reachable undated_entry by simp
qed

text \<open>
  C5, amended: in every state the module can reach, an entry of the cache is never partly
  filled: it is the map built from the whole list the engine returns for the year and
  country of its key, and it binds the date string of every record of that list whose
  date string is not empty (a record with an empty date string is skipped); or the key is
  absent.
\<close>

theorem cache_entry_complete:
  assumes "reachable calendarFor tza s" and "calendarCache s k = Some entry"
  shows "entry_complete calendarFor k entry"
  using assms
proof (induction arbitrary: k entry rule: reachable.induct)
  case start
  then show ?case by (simp add: initial_state_def)
next
  case (resolve s toLowerCase date_arg diocese_arg)
  show ?case
  proof (rule entries_preserved [where calendarFor = calendarFor and cache = "calendarCache s"
        and cache' = "calendarCache (snd (getLiturgicalDay calendarFor tza toLowerCase date_arg diocese_arg s))"])
    show "entry_complete calendarFor k' e'" if "calendarCache s k' = Some e'" for k' e'
      using that by (rule resolve.IH)
    show "calendarCache (snd (getLiturgicalDay calendarFor tza toLowerCase date_arg diocese_arg s)) = calendarCache s
      \<or> (\<exists>year country calendar. calendarFor year country = Inr calendar
        \<and> calendarCache (snd (getLiturgicalDay calendarFor tza toLowerCase date_arg diocese_arg s))
           = (calendarCache s)(cacheKey_of year country \<mapsto> dateMap_loop Map.empty calendar))"
      by (rule getLiturgicalDay_cache_cases)
    show "calendarCache (snd (getLiturgicalDay calendarFor tza toLowerCase date_arg diocese_arg s)) k = Some entry"
      by (rule resolve.prems)
  qed
next
  case (calendar s year country)
  show ?case
  proof (rule entries_preserved [where calendarFor = calendarFor and cache = "calendarCache s"
        and cache' = "calendarCache (snd (getCalendar calendarFor year country s))"])
    show "entry_complete calendarFor k' e'" if "calendarCache s k' = Some e'" for k' e'
      using that by (rule calendar.IH)
    show "calendarCache (snd (getCalendar calendarFor year country s)) = calendarCache s
      \<or> (\<exists>y c cal. calendarFor y c = Inr cal
        \<and> calendarCache (snd (getCalendar calendarFor year country s))
           = (calendarCache s)(cacheKey_of y c \<mapsto> dateMap_loop Map.empty cal))"
      using getCalendar_cache_cases [of calendarFor year country s] by blast
    show "calendarCache (snd (getCalendar calendarFor year country s)) k = Some entry"
      by (rule calendar.prems)
  qed
next
  case (clear s)
  then show ?case by (simp add: clearCalendarCache_def calendarCache_emit)
qed

theorem cache_entry_complete_witness:
  "reachable undated_engine utc (snd (getLiturgicalDay undated_engine utc toLowerCase_ascii january_28_2026 None initial_state))
   \<and> calendarCache (snd (getLiturgicalDay undated_engine utc toLowerCase_ascii january_28_2026 None initial_state))
        ''2026-unitedStates'' = Some [''2026-01-28'' \<mapsto> memorial_day]
   \<and> entry_complete undated_engine ''2026-unitedStates'' [''2026-01-28'' \<mapsto> memorial_day]"
  using undated_reachable undated_entry
    cache_entry_complete [OF undated_reachable undated_entry]
  by simp

section \<open>Properties of the calendar functions\<close>

subsection \<open>The year of a day\<close>

lemma DayFromYear_1970: "DayFromYear 1970 = 0"
  by (simp add: DayFromYear_def)

lemma DayFromYear_mono: "y \<le> y' \<Longrightarrow> DayFromYear y \<le> DayFromYear y'"
proof (induction y' rule: int_ge_induct)
  case base
  show ?case by simp
next
  case (step i)
  then show ?case
    using DayFromYear_step [of i] DaysInYear_bounds(1) [of i] by simp
qed

lemma DayFromYear_strict: "y < y' \<Longrightarrow> DayFromYear y < DayFromYear y'"
proof -
  assume "y < y'"
  then have "DayFromYear (y + 1) \<le> DayFromYear y'" by (intro DayFromYear_mono) simp
  then show ?thesis using DayFromYear_step [of y] DaysInYear_bounds(1) [of y] by simp
qed

lemma DayFromYear_after_1970:
  "1970 \<le> y \<Longrightarrow> 0 \<le> DayFromYear y \<and> DayFromYear y \<le> 366 * (y - 1970)"
proof (induction y rule: int_ge_induct)
  case base
  show ?case by (simp add: DayFromYear_1970)
next
  case (step i)
  then show ?case
    using DayFromYear_step [of i] DaysInYear_bounds [of i] by simp
qed

lemma DayFromYear_before_1970:
  "y \<le> 1970 \<Longrightarrow> 366 * (y - 1970) \<le> DayFromYear y \<and> DayFromYear y \<le> 365 * (y - 1970)"
proof (induction y rule: int_le_induct)
  case base
  show ?case by (simp add: DayFromYear_1970)
next
  case (step i)
  then show ?case
    using DayFromYear_step [of "i - 1"] DaysInYear_bounds [of "i - 1"] by simp
qed

lemma year_search_spec:
  "DayFromYear y \<le> d \<Longrightarrow>
     DayFromYear (year_search d y) \<le> d \<and> d < DayFromYear (year_search d y + 1)"
proof (induction d y rule: year_search.induct)
  case (1 d y)
  show ?case
  proof (cases "DayFromYear (y + 1) \<le> d")
    case True
    then show ?thesis using "1.IH" by (subst (1 2) year_search.simps) simp
  next
    case False
    then show ?thesis using "1.prems" by (subst (1 2) year_search.simps) simp
  qed
qed

lemma year_search_start:
  "DayFromYear (1970 + (if 0 \<le> d then d div 366 else d div 365)) \<le> d"
proof (cases "0 \<le> d")
  case True
  then have "0 \<le> d div 366" by simp
  then have "DayFromYear (1970 + d div 366) \<le> 366 * (d div 366)"
    using DayFromYear_after_1970 [of "1970 + d div 366"] by simp
  also have "\<dots> \<le> d" by (simp add: minus_mod_eq_mult_div [symmetric])
  finally show ?thesis using True by simp
next
  case False
  then have "d div 365 \<le> 0" by (simp add: div_nonpos_pos_le0)
  then have "DayFromYear (1970 + d div 365) \<le> 365 * (d div 365)"
    using DayFromYear_before_1970 [of "1970 + d div 365"] by simp
  also have "\<dots> \<le> d" by (simp add: minus_mod_eq_mult_div [symmetric])
  finally show ?thesis using False by simp
qed

text \<open>\<open>YearFromTime t\<close> is the year the standard defines: the largest \<open>y\<close> whose first day
  is not after the day of \<open>t\<close>.\<close>

lemma YearFromTime_bounds:
  "DayFromYear (YearFromTime t) \<le> Day t" "Day t < DayFromYear (YearFromTime t + 1)"
  using year_search_spec [OF year_search_start [of "Day t"]]
  by (simp_all add: YearFromTime_def Let_def)

lemma YearFromTime_unique:
  assumes "DayFromYear y \<le> Day t" and "Day t < DayFromYear (y + 1)"
  shows "YearFromTime t = y"
proof (rule ccontr)
  assume ne: "YearFromTime t \<noteq> y"
  show False
  proof (cases "YearFromTime t < y")
    case True
    then have "DayFromYear (YearFromTime t + 1) \<le> DayFromYear y" by (intro DayFromYear_mono) simp
    then show False using YearFromTime_bounds(2) [of t] assms(1) by simp
  next
    case False
    then have "y + 1 \<le> YearFromTime t" using ne by simp
    then have "DayFromYear (y + 1) \<le> DayFromYear (YearFromTime t)" by (rule DayFromYear_mono)
    then show False using YearFromTime_bounds(1) [of t] assms(2) by simp
  qed
qed

lemma YearFromTime_greatest:
  "DayFromYear y \<le> Day t \<longleftrightarrow> y \<le> YearFromTime t"
proof
  assume a: "DayFromYear y \<le> Day t"
  show "y \<le> YearFromTime t"
  proof (rule ccontr)
    assume "\<not> y \<le> YearFromTime t"
    then have "YearFromTime t + 1 \<le> y" by simp
    then have "DayFromYear (YearFromTime t + 1) \<le> DayFromYear y" by (rule DayFromYear_mono)
    then show False using a YearFromTime_bounds(2) [of t] by simp
  qed
next
  assume "y \<le> YearFromTime t"
  then have "DayFromYear y \<le> DayFromYear (YearFromTime t)" by (rule DayFromYear_mono)
  then show "DayFromYear y \<le> Day t" using YearFromTime_bounds(1) [of t] by simp
qed

lemma DayWithinYear_range:
  "0 \<le> DayWithinYear t" "DayWithinYear t < DaysInYear (YearFromTime t)"
  using YearFromTime_bounds [of t] DayFromYear_step [of "YearFromTime t"]
  by (simp_all add: DayWithinYear_def)

subsection \<open>Month and day of the month\<close>

lemma InLeapYear_cases: "InLeapYear t = 0 \<or> InLeapYear t = 1"
  by (simp add: InLeapYear_def)

lemma DaysInYear_InLeapYear: "DaysInYear (YearFromTime t) = 365 + InLeapYear t"
  by (simp add: InLeapYear_def DaysInYear_def)

lemma is_leap_year_DaysInYear: "DaysInYear y = (if is_leap_year y then 366 else 365)"
  by (simp add: is_leap_year_def DaysInYear_def)

lemma days_in_month_InLeapYear:
  "days_in_month (YearFromTime t) m =
     (if m = 2 then 28 + InLeapYear t else if m = 4 \<or> m = 6 \<or> m = 9 \<or> m = 11 then 30 else 31)"
  by (simp add: days_in_month_def InLeapYear_def is_leap_year_DaysInYear)

lemma month_disj:
  fixes m :: int
  shows "1 \<le> m \<Longrightarrow> m \<le> 12 \<Longrightarrow>
    m = 1 \<or> m = 2 \<or> m = 3 \<or> m = 4 \<or> m = 5 \<or> m = 6
    \<or> m = 7 \<or> m = 8 \<or> m = 9 \<or> m = 10 \<or> m = 11 \<or> m = 12"
  by arith

lemma month_cases:
  fixes m :: int
  assumes "1 \<le> m" and "m \<le> 12"
  obtains "m = 1" | "m = 2" | "m = 3" | "m = 4" | "m = 5" | "m = 6"
    | "m = 7" | "m = 8" | "m = 9" | "m = 10" | "m = 11" | "m = 12"
  using month_disj [OF assms] by blast

text \<open>Encoding a possible date and decoding it gives the date back.\<close>

lemma month_start_within_year:
  assumes "l = 0 \<or> l = 1" and "1 \<le> m" and "m \<le> 12" and "1 \<le> d"
    and "d \<le> (if m = 2 then 28 + l else if m = 4 \<or> m = 6 \<or> m = 9 \<or> m = 11 then 30 else 31)"
  shows "0 \<le> month_start (m - 1) l + d - 1" and "month_start (m - 1) l + d - 1 < 365 + l"
  using assms(2,3)
  by (cases m rule: month_cases; use assms(1,4,5) in \<open>simp add: month_start_def\<close>; arith)+

lemma decode_month:
  assumes dw: "DayWithinYear t = month_start (m - 1) (InLeapYear t) + d - 1"
    and m: "1 \<le> m" "m \<le> 12" and d: "1 \<le> d" "d \<le> days_in_month (YearFromTime t) m"
  shows "MonthFromTime t = m - 1"
  using m
  by (cases m rule: month_cases;
      use d InLeapYear_cases [of t] in
        \<open>simp add: MonthFromTime_def dw month_start_def days_in_month_InLeapYear Let_def\<close>;
      arith)

lemma decode_date:
  assumes dw: "DayWithinYear t = month_start (m - 1) (InLeapYear t) + d - 1"
    and mt: "MonthFromTime t = m - 1" and m: "1 \<le> m" "m \<le> 12"
  shows "DateFromTime t = d"
  using m
  by (cases m rule: month_cases; simp add: DateFromTime_def mt dw month_start_def Let_def)

text \<open>Decoding any time value gives a possible date.\<close>

lemma MonthFromTime_range: "0 \<le> MonthFromTime t" "MonthFromTime t \<le> 11"
  by (simp_all add: MonthFromTime_def Let_def)

lemma MonthFromTime_interval:
  "month_start (MonthFromTime t) (InLeapYear t) \<le> DayWithinYear t"
  "DayWithinYear t < month_start (MonthFromTime t) (InLeapYear t)
                      + days_in_month (YearFromTime t) (MonthFromTime t + 1)"
proof -
  define d where "d = DayWithinYear t"
  define l where "l = InLeapYear t"
  have l: "l = 0 \<or> l = 1" unfolding l_def by (rule InLeapYear_cases)
  have d: "0 \<le> d" "d < 365 + l"
    using DayWithinYear_range [of t] by (simp_all add: d_def l_def DaysInYear_InLeapYear)
  have m: "MonthFromTime t =
     (if d < 31 then 0 else if d < 59 + l then 1 else if d < 90 + l then 2
         else if d < 120 + l then 3 else if d < 151 + l then 4 else if d < 181 + l then 5
         else if d < 212 + l then 6 else if d < 243 + l then 7 else if d < 273 + l then 8
         else if d < 304 + l then 9 else if d < 334 + l then 10 else 11)"
    by (simp add: MonthFromTime_def Let_def d_def l_def)
  consider "d < 31" | "31 \<le> d" "d < 59 + l" | "59 + l \<le> d" "d < 90 + l"
    | "90 + l \<le> d" "d < 120 + l" | "120 + l \<le> d" "d < 151 + l" | "151 + l \<le> d" "d < 181 + l"
    | "181 + l \<le> d" "d < 212 + l" | "212 + l \<le> d" "d < 243 + l" | "243 + l \<le> d" "d < 273 + l"
    | "273 + l \<le> d" "d < 304 + l" | "304 + l \<le> d" "d < 334 + l" | "334 + l \<le> d"
    by linarith
  then have "month_start (MonthFromTime t) l \<le> d
      \<and> d < month_start (MonthFromTime t) l + days_in_month (YearFromTime t) (MonthFromTime t + 1)"
    by cases (use l d in \<open>auto simp: m month_start_def days_in_month_InLeapYear l_def [symmetric]\<close>)
  then show "month_start (MonthFromTime t) (InLeapYear t) \<le> DayWithinYear t"
    "DayWithinYear t < month_start (MonthFromTime t) (InLeapYear t)
                      + days_in_month (YearFromTime t) (MonthFromTime t + 1)"
    by (simp_all add: d_def l_def)
qed

lemma DateFromTime_eq:
  "DateFromTime t = DayWithinYear t - month_start (MonthFromTime t) (InLeapYear t) + 1"
proof -
  have "1 \<le> MonthFromTime t + 1" "MonthFromTime t + 1 \<le> 12"
    using MonthFromTime_range [of t] by simp_all
  then show ?thesis
  proof (cases "MonthFromTime t + 1" rule: month_cases)
    case 1 then have "MonthFromTime t = 0" by simp
    then show ?thesis by (simp add: DateFromTime_def month_start_def Let_def)
  next
    case 2 then have "MonthFromTime t = 1" by simp
    then show ?thesis by (simp add: DateFromTime_def month_start_def Let_def)
  next
    case 3 then have "MonthFromTime t = 2" by simp
    then show ?thesis by (simp add: DateFromTime_def month_start_def Let_def)
  next
    case 4 then have "MonthFromTime t = 3" by simp
    then show ?thesis by (simp add: DateFromTime_def month_start_def Let_def)
  next
    case 5 then have "MonthFromTime t = 4" by simp
    then show ?thesis by (simp add: DateFromTime_def month_start_def Let_def)
  next
    case 6 then have "MonthFromTime t = 5" by simp
    then show ?thesis by (simp add: DateFromTime_def month_start_def Let_def)
  next
    case 7 then have "MonthFromTime t = 6" by simp
    then show ?thesis by (simp add: DateFromTime_def month_start_def Let_def)
  next
    case 8 then have "MonthFromTime t = 7" by simp
    then show ?thesis by (simp add: DateFromTime_def month_start_def Let_def)
  next
    case 9 then have "MonthFromTime t = 8" by simp
    then show ?thesis by (simp add: DateFromTime_def month_start_def Let_def)
  next
    case 10 then have "MonthFromTime t = 9" by simp
    then show ?thesis by (simp add: DateFromTime_def month_start_def Let_def)
  next
    case 11 then have "MonthFromTime t = 10" by simp
    then show ?thesis by (simp add: DateFromTime_def month_start_def Let_def)
  next
    case 12 then have "MonthFromTime t = 11" by simp
    then show ?thesis by (simp add: DateFromTime_def month_start_def Let_def)
  qed
qed

lemma decoded_date_possible:
  "possible_date (YearFromTime t) (MonthFromTime t + 1) (DateFromTime t)"
  using MonthFromTime_range [of t] MonthFromTime_interval [of t]
  by (simp add: possible_date_def DateFromTime_eq)

lemma DayWithinYear_decoded:
  "DayWithinYear t = month_start (MonthFromTime t) (InLeapYear t) + DateFromTime t - 1"
  by (simp add: DateFromTime_eq)

subsection \<open>Date.UTC on a possible date\<close>

lemma Day_MakeDate: "Day (MakeDate day 0) = day"
  by (simp add: Day_def MakeDate_def msPerDay_def)

lemma MakeDay_in_year:
  assumes "0 \<le> month" and "month \<le> 11"
  shows "MakeDay year month dt =
           DayFromYear year + month_start month (if DaysInYear year = 366 then 1 else 0) + dt - 1"
proof -
  have "month div 12 = 0" "month mod 12 = month"
    using assms by (simp_all add: div_pos_pos_trivial mod_pos_pos_trivial)
  then show ?thesis by (simp add: MakeDay_def Let_def)
qed

lemma encode_decode:
  assumes p: "possible_date y m d"
  shows "YearFromTime (MakeDate (MakeDay y (m - 1) d) 0) = y"
    and "MonthFromTime (MakeDate (MakeDay y (m - 1) d) 0) = m - 1"
    and "DateFromTime (MakeDate (MakeDay y (m - 1) d) 0) = d"
proof -
  let ?t = "MakeDate (MakeDay y (m - 1) d) 0"
  define l :: int where "l = (if DaysInYear y = 366 then 1 else 0)"
  have m: "1 \<le> m" "m \<le> 12" and d: "1 \<le> d" "d \<le> days_in_month y m"
    using p by (simp_all add: possible_date_def)
  have l: "l = 0 \<or> l = 1" by (simp add: l_def)
  have dl: "d \<le> (if m = 2 then 28 + l else if m = 4 \<or> m = 6 \<or> m = 9 \<or> m = 11 then 30 else 31)"
    using d(2) by (simp add: days_in_month_def is_leap_year_DaysInYear l_def split: if_splits)
  have day: "Day ?t = DayFromYear y + month_start (m - 1) l + d - 1"
    using m by (simp add: Day_MakeDate MakeDay_in_year l_def)
  have w: "0 \<le> month_start (m - 1) l + d - 1" "month_start (m - 1) l + d - 1 < 365 + l"
    using month_start_within_year [OF l m d(1) dl] by simp_all
  have len: "DaysInYear y = 365 + l"
    by (simp add: l_def DaysInYear_def)
  show y: "YearFromTime ?t = y"
  proof (rule YearFromTime_unique)
    show "DayFromYear y \<le> Day ?t" using day w(1) by simp
    show "Day ?t < DayFromYear (y + 1)" using day w(2) len by (simp add: DayFromYear_step)
  qed
  have il: "InLeapYear ?t = l" by (simp add: InLeapYear_def y l_def)
  have dw: "DayWithinYear ?t = month_start (m - 1) (InLeapYear ?t) + d - 1"
    using day by (simp add: DayWithinYear_def y il)
  have d': "d \<le> days_in_month (YearFromTime ?t) m" using d(2) y by simp
  show mt: "MonthFromTime ?t = m - 1"
    by (rule decode_month [OF dw m d(1) d'])
  show "DateFromTime ?t = d"
    by (rule decode_date [OF dw mt m])
qed

text \<open>\<open>MakeDay\<close> is what the standard asks for: with date 1 it lands on the first day of the
  month \<open>mn\<close> of the year \<open>ym\<close>.\<close>

lemma MakeDay_spec:
  assumes "0 \<le> mn" and "mn \<le> 11"
  shows "YearFromTime (MakeDate (MakeDay ym mn 1) 0) = ym"
    and "MonthFromTime (MakeDate (MakeDay ym mn 1) 0) = mn"
    and "DateFromTime (MakeDate (MakeDay ym mn 1) 0) = 1"
proof -
  have "possible_date ym (mn + 1) 1"
    using assms by (simp add: possible_date_def days_in_month_def)
  from encode_decode [OF this]
  show "YearFromTime (MakeDate (MakeDay ym mn 1) 0) = ym"
    and "MonthFromTime (MakeDate (MakeDay ym mn 1) 0) = mn"
    and "DateFromTime (MakeDate (MakeDay ym mn 1) 0) = 1"
    by simp_all
qed

section \<open>Properties of the date utilities\<close>

subsection \<open>Digits\<close>

lemma is_digit_facts:
  assumes "is_digit c"
  shows "digit_val c < 10" and "digit_char (digit_val c) = c"
    and "\<not> is_space c" and "c \<noteq> CHR ''-''" and "c \<noteq> CHR ''+''"
proof -
  have r: "48 \<le> (of_char c :: nat)" "(of_char c :: nat) \<le> 57"
    using assms by (simp_all add: is_digit_def)
  show "digit_val c < 10" using r by (simp add: digit_val_def)
  show "digit_char (digit_val c) = c" using r by (simp add: digit_val_def digit_char_def)
  show "\<not> is_space c" using r by (auto simp: is_space_def)
  show "c \<noteq> CHR ''-''" using r by auto
  show "c \<noteq> CHR ''+''" using r by auto
qed

lemma char_of_48: "char_of (48 :: nat) = CHR ''0''"
  by code_simp

lemma digit_val_0: "is_digit c \<Longrightarrow> digit_val c = 0 \<Longrightarrow> c = CHR ''0''"
proof -
  assume "is_digit c" and z: "digit_val c = 0"
  from \<open>is_digit c\<close> have "digit_char (digit_val c) = c" by (rule is_digit_facts(2))
  then show ?thesis using char_of_48 by (simp add: z digit_char_def)
qed

lemma parseInt_digits:
  assumes "ds \<noteq> []" and "\<forall>c \<in> set ds. is_digit c"
  shows "parseInt ds = Some (int (digits_val ds))"
proof -
  obtain c r where ds: "ds = c # r" using assms(1) by (cases ds) auto
  have c: "is_digit c" using assms(2) ds by simp
  have dw: "dropWhile is_space ds = ds" using c by (simp add: ds is_digit_facts)
  have tw: "takeWhile is_digit ds = ds" using assms(2) by (simp add: takeWhile_eq_all_conv)
  have sign: "(case ds of c # r \<Rightarrow> if c = CHR ''-'' then (True, r)
                  else if c = CHR ''+'' then (False, r) else (False, ds)
               | [] \<Rightarrow> (False, ds)) = (False, ds)"
    using c by (simp add: ds is_digit_facts)
  show ?thesis
    using assms(1) by (simp add: parseInt_def dw sign tw Let_def)
qed

lemma show_nat_digit: "k < 10 \<Longrightarrow> show_nat k = [digit_char k]"
  by (subst show_nat.simps) simp

lemma show_nat_snoc:
  "0 < n \<Longrightarrow> k < 10 \<Longrightarrow> show_nat (10 * n + k) = show_nat n @ [digit_char k]"
  by (subst show_nat.simps) simp

lemma digits_val_snoc: "digits_val (ds @ [c]) = 10 * digits_val ds + digit_val c"
  by (simp add: digits_val_def)

text \<open>Printing the value of a digit string without a leading zero gives the string back.\<close>

lemma show_nat_digits_val:
  assumes "ds \<noteq> []" and "\<forall>c \<in> set ds. is_digit c" and "hd ds \<noteq> CHR ''0''"
  shows "show_nat (digits_val ds) = ds \<and> 0 < digits_val ds"
  using assms
proof (induction ds rule: rev_nonempty_induct)
  case (single c)
  then have c: "is_digit c" "c \<noteq> CHR ''0''" by simp_all
  then have "digit_val c \<noteq> 0" using digit_val_0 by blast
  then show ?case
    using c(1) by (simp add: digits_val_def show_nat_digit is_digit_facts)
next
  case (snoc c ds)
  then have ih: "show_nat (digits_val ds) = ds" "0 < digits_val ds"
    by simp_all
  have c: "is_digit c" using snoc.prems by simp
  show ?case
    using ih c by (simp add: digits_val_snoc show_nat_snoc is_digit_facts)
qed

lemma padStart_two_digits:
  assumes "is_digit a" and "is_digit b"
  shows "padStart 2 (CHR ''0'') (show_nat (digits_val [a, b])) = [a, b]"
proof (cases "a = CHR ''0''")
  case True
  have "digits_val [a, b] = digit_val b"
    by (simp add: digits_val_def True digit_val_def)
  then show ?thesis
    using assms(2) by (simp add: show_nat_digit is_digit_facts padStart_def True)
next
  case False
  have "show_nat (digits_val [a, b]) = [a, b]"
    using show_nat_digits_val [of "[a, b]"] assms False by simp
  then show ?thesis by (simp add: padStart_def)
qed

lemma digits_val_bound: "\<forall>c \<in> set ds. is_digit c \<Longrightarrow> digits_val ds < 10 ^ length ds"
proof (induction ds rule: rev_induct)
  case Nil
  show ?case by (simp add: digits_val_def)
next
  case (snoc c ds)
  then have "digits_val ds < 10 ^ length ds" "digit_val c < 10"
    by (simp_all add: is_digit_facts)
  then show ?case by (simp add: digits_val_snoc)
qed

lemma digits_val_leading:
  assumes "\<forall>c \<in> set ds. is_digit c" and "is_digit a"
  shows "a = CHR ''0'' \<longleftrightarrow> digits_val (a # ds) < 10 ^ length ds"
proof -
  have v: "digits_val (a # ds) = digit_val a * 10 ^ length ds + digits_val ds"
    using assms(1)
  proof (induction ds rule: rev_induct)
    case Nil
    show ?case by (simp add: digits_val_def)
  next
    case (snoc c ds)
    then have "digits_val (a # ds) = digit_val a * 10 ^ length ds + digits_val ds" by simp
    then show ?case
      using digits_val_snoc [of "a # ds" c] by (simp add: digits_val_snoc algebra_simps)
  qed
  have b: "digits_val ds < 10 ^ length ds" using assms(1) by (rule digits_val_bound)
  show ?thesis
  proof
    assume "a = CHR ''0''"
    then show "digits_val (a # ds) < 10 ^ length ds" using v b by (simp add: digit_val_def)
  next
    assume lt: "digits_val (a # ds) < 10 ^ length ds"
    have "digit_val a = 0"
    proof (rule ccontr)
      assume "digit_val a \<noteq> 0"
      then have "(10 :: nat) ^ length ds \<le> digit_val a * 10 ^ length ds"
        by simp
      then show False using lt v by linarith
    qed
    then show "a = CHR ''0''" using assms(2) by (rule digit_val_0 [rotated])
  qed
qed

subsection \<open>The pattern\<close>

lemma dateRegex_match_Some:
  assumes "dateRegex_match s = Some (yearStr, monthStr, dayStr)"
  shows "s = yearStr @ ''-'' @ monthStr @ ''-'' @ dayStr"
    and "length yearStr = 4" and "length monthStr = 2" and "length dayStr = 2"
    and "\<forall>c \<in> set yearStr. is_digit c" and "\<forall>c \<in> set monthStr. is_digit c"
    and "\<forall>c \<in> set dayStr. is_digit c"
  using assms
  by (auto simp: dateRegex_match_def split: list.splits if_splits)

subsection \<open>What parseDate accepts\<close>

lemma parseDate_checked_date:
  "parseDate s = (case date_fields s of None \<Rightarrow> None | Some (y, m, d) \<Rightarrow> checked_date y m d)"
proof (cases "dateRegex_match s")
  case None
  then show ?thesis by (simp add: parseDate_def date_fields_def)
next
  case (Some groups)
  obtain yearStr monthStr dayStr where g: "groups = (yearStr, monthStr, dayStr)"
    by (cases groups) auto
  note m = dateRegex_match_Some [OF Some [unfolded g]]
  have ne: "yearStr \<noteq> []" "monthStr \<noteq> []" "dayStr \<noteq> []"
    using m(2,3,4) by auto
  show ?thesis
    by (simp add: parseDate_def date_fields_def Some g checked_date_def num_add_def Let_def
        parseInt_digits [OF ne(1) m(5)] parseInt_digits [OF ne(2) m(6)]
        parseInt_digits [OF ne(3) m(7)])
qed

lemma date_fields_range:
  assumes "date_fields s = Some (y, m, d)"
  shows "0 \<le> y" and "y \<le> 9999"
proof -
  obtain yearStr monthStr dayStr where g: "dateRegex_match s = Some (yearStr, monthStr, dayStr)"
    and y: "y = int (digits_val yearStr)"
    using assms by (auto simp: date_fields_def split: option.splits)
  note f = dateRegex_match_Some [OF g]
  show "0 \<le> y" by (simp add: y)
  have "digits_val yearStr < 10 ^ length yearStr" using f(5) by (rule digits_val_bound)
  then show "y \<le> 9999" by (simp add: y f(2))
qed

lemma month_start_nonneg: "l = 0 \<or> l = 1 \<Longrightarrow> 0 \<le> month_start k l"
  by (auto simp: month_start_def)

lemma DayFromYear_four_digits:
  assumes "0 \<le> y" and "y \<le> 9999"
  shows "- 721020 \<le> DayFromYear y" and "DayFromYear y \<le> 2938614"
proof -
  have "- 721020 \<le> DayFromYear y \<and> DayFromYear y \<le> 2938614"
  proof (cases "1970 \<le> y")
    case True
    then show ?thesis using DayFromYear_after_1970 [of y] assms by simp
  next
    case False
    then show ?thesis using DayFromYear_before_1970 [of y] assms by simp
  qed
  then show "- 721020 \<le> DayFromYear y" and "DayFromYear y \<le> 2938614" by simp_all
qed

lemma possible_date_TimeClip:
  assumes "0 \<le> y" and "y \<le> 9999" and p: "possible_date y m d"
  shows "TimeClip (MakeDate (MakeDay y (m - 1) d) 0) = Some (MakeDate (MakeDay y (m - 1) d) 0)"
proof -
  define l :: int where "l = (if DaysInYear y = 366 then 1 else 0)"
  have m: "1 \<le> m" "m \<le> 12" and d: "1 \<le> d" "d \<le> days_in_month y m"
    using p by (simp_all add: possible_date_def)
  have l: "l = 0 \<or> l = 1" by (simp add: l_def)
  have dl: "d \<le> (if m = 2 then 28 + l else if m = 4 \<or> m = 6 \<or> m = 9 \<or> m = 11 then 30 else 31)"
    using d(2) by (simp add: days_in_month_def is_leap_year_DaysInYear l_def split: if_splits)
  have day: "MakeDay y (m - 1) d = DayFromYear y + (month_start (m - 1) l + d - 1)"
    using m by (simp add: MakeDay_in_year l_def)
  have w: "0 \<le> month_start (m - 1) l + d - 1" "month_start (m - 1) l + d - 1 < 365 + l"
    using month_start_within_year [OF l m d(1) dl] by simp_all
  have "- 721020 \<le> MakeDay y (m - 1) d" "MakeDay y (m - 1) d \<le> 2938980"
    using DayFromYear_four_digits [OF assms(1,2)] w l unfolding day by linarith+
  then show ?thesis
    by (simp add: TimeClip_def MakeDate_def msPerDay_def abs_if)
qed

text \<open>
  The check of \<open>parseDate\<close> passes exactly for the possible dates of the years 100 to 9999:
  \<open>Date.UTC\<close> reads a year from 0 to 99 as 1900 + year, so the year read back differs.
\<close>

lemma checked_date_Some_iff:
  assumes "0 \<le> y" and "y \<le> 9999"
  shows "checked_date y m d = Some parsed \<longleftrightarrow>
           100 \<le> y \<and> possible_date y m d \<and> parsed = Date (Some (MakeDate (MakeDay y (m - 1) d) 0))"
proof
  assume a: "100 \<le> y \<and> possible_date y m d \<and> parsed = Date (Some (MakeDate (MakeDay y (m - 1) d) 0))"
  then have p: "possible_date y m d" and y: "100 \<le> y" by simp_all
  note clip = possible_date_TimeClip [OF assms p]
  show "checked_date y m d = Some parsed"
    using y a
    by (simp add: checked_date_def Date_UTC_def new_Date_def clip getUTCFullYear_def
        getUTCMonth_def getUTCDate_def strict_ne_def encode_decode [OF p])
next
  assume c: "checked_date y m d = Some parsed"
  define yr where "yr = (if 0 \<le> y \<and> y \<le> 99 then 1900 + y else y)"
  define t where "t = MakeDate (MakeDay yr (m - 1) d) 0"
  have utc: "Date_UTC (Some y) (Some (m - 1)) (Some d) = TimeClip t"
    by (simp add: Date_UTC_def yr_def t_def Let_def)
  have clip: "TimeClip t = Some t"
  proof (cases "TimeClip t")
    case None
    then show ?thesis
      using c by (simp add: checked_date_def utc new_Date_def getUTCFullYear_def strict_ne_def)
  next
    case (Some t')
    then show ?thesis by (simp add: TimeClip_def split: if_splits)
  qed
  have parsed: "parsed = Date (Some t)" and fields: "YearFromTime t = y" "MonthFromTime t = m - 1"
    "DateFromTime t = d"
    using c
    by (simp_all add: checked_date_def utc clip new_Date_def getUTCFullYear_def getUTCMonth_def
        getUTCDate_def strict_ne_def split: if_splits)
  have p: "possible_date y m d"
    using decoded_date_possible [of t] by (simp add: fields)
  then have m: "1 \<le> m" "m \<le> 12" and d: "1 \<le> d" by (simp_all add: possible_date_def)
  have y: "100 \<le> y"
  proof (rule ccontr)
    assume "\<not> 100 \<le> y"
    then have yr: "yr = 1900 + y" using assms(1) by (simp add: yr_def)
    have "Day t = DayFromYear yr + month_start (m - 1) (if DaysInYear yr = 366 then 1 else 0) + d - 1"
      using m by (simp add: t_def Day_MakeDate MakeDay_in_year)
    moreover have "0 \<le> month_start (m - 1) (if DaysInYear yr = 366 then 1 else 0)"
      by (rule month_start_nonneg) simp
    ultimately have "DayFromYear yr \<le> Day t" using d by simp
    then have "yr \<le> YearFromTime t" by (simp add: YearFromTime_greatest)
    then show False using yr fields(1) by simp
  qed
  then have "yr = y" by (simp add: yr_def)
  then show "100 \<le> y \<and> possible_date y m d \<and> parsed = Date (Some (MakeDate (MakeDay y (m - 1) d) 0))"
    using y p parsed by (simp add: t_def)
qed

lemma parseDate_Some_iff:
  "parseDate s = Some parsed \<longleftrightarrow>
     (\<exists>y m d. date_fields s = Some (y, m, d) \<and> 100 \<le> y \<and> possible_date y m d
        \<and> parsed = Date (Some (MakeDate (MakeDay y (m - 1) d) 0)))"
proof (cases "date_fields s")
  case None
  then show ?thesis by (simp add: parseDate_checked_date)
next
  case (Some f)
  obtain y m d where f: "f = (y, m, d)" by (cases f) auto
  have r: "0 \<le> y" "y \<le> 9999" using date_fields_range [OF Some [unfolded f]] by simp_all
  show ?thesis
    by (simp add: parseDate_checked_date Some f checked_date_Some_iff [OF r])
qed

lemma isValidDate_iff:
  "isValidDate s \<longleftrightarrow>
     (\<exists>y m d. date_fields s = Some (y, m, d) \<and> 100 \<le> y \<and> possible_date y m d)"
proof -
  have "isValidDate s \<longleftrightarrow> (\<exists>parsed. parseDate s = Some parsed)"
    by (simp add: isValidDate_def)
  then show ?thesis by (auto simp: parseDate_Some_iff)
qed

subsection \<open>Formatting a parsed date\<close>

lemma same_day_same_fields:
  assumes "Day t = Day t'"
  shows "YearFromTime t = YearFromTime t'" and "MonthFromTime t = MonthFromTime t'"
    and "DateFromTime t = DateFromTime t'"
proof -
  show y: "YearFromTime t = YearFromTime t'" using assms by (simp add: YearFromTime_def)
  have l: "InLeapYear t = InLeapYear t'" by (simp add: InLeapYear_def y)
  have w: "DayWithinYear t = DayWithinYear t'" using assms by (simp add: DayWithinYear_def y)
  show m: "MonthFromTime t = MonthFromTime t'" by (simp add: MonthFromTime_def l w)
  show "DateFromTime t = DateFromTime t'" by (simp add: DateFromTime_def l w m)
qed

lemma Day_LocalTime_east:
  assumes "0 \<le> tza (MakeDate day 0)" and "tza (MakeDate day 0) < msPerDay"
  shows "Day (LocalTime tza (MakeDate day 0)) = Day (MakeDate day 0)"
proof -
  have "(day * msPerDay + tza (day * msPerDay)) div msPerDay = day"
    using assms by (simp add: MakeDate_def msPerDay_def div_pos_pos_trivial)
  then show ?thesis by (simp add: LocalTime_def Day_def MakeDate_def msPerDay_def)
qed

lemma Day_LocalTime_west:
  assumes "- msPerDay \<le> tza (MakeDate day 0)" and "tza (MakeDate day 0) < 0"
  shows "Day (LocalTime tza (MakeDate day 0)) = Day (MakeDate day 0) - 1"
proof -
  define off where "off = tza (day * msPerDay) + msPerDay"
  have o: "0 \<le> off" "off < msPerDay" using assms by (simp_all add: off_def MakeDate_def)
  have "day * msPerDay + tza (day * msPerDay) = (day - 1) * msPerDay + off"
    by (simp add: off_def algebra_simps)
  then have "(day * msPerDay + tza (day * msPerDay)) div msPerDay = day - 1"
    using o by (simp add: msPerDay_def div_pos_pos_trivial)
  then show ?thesis by (simp add: LocalTime_def Day_def MakeDate_def msPerDay_def)
qed

text \<open>
  On a host whose offset from UTC is at least 0 and less than a day, formatting what
  \<open>parseDate\<close> returns gives the input back when the year has no leading zero.
\<close>

lemma format_parse_roundtrip:
  assumes parse: "parseDate s = Some parsed"
    and tz: "\<And>t. 0 \<le> tza t \<and> tza t < msPerDay"
    and year: "hd s \<noteq> CHR ''0''"
  shows "formatDate tza parsed = s"
proof -
  obtain y m d where f: "date_fields s = Some (y, m, d)" and p: "possible_date y m d"
    and dt: "parsed = Date (Some (MakeDate (MakeDay y (m - 1) d) 0))"
    using parse by (auto simp: parseDate_Some_iff)
  obtain yearStr monthStr dayStr where g: "dateRegex_match s = Some (yearStr, monthStr, dayStr)"
    and y: "y = int (digits_val yearStr)" and m: "m = int (digits_val monthStr)"
    and d: "d = int (digits_val dayStr)"
    using f by (auto simp: date_fields_def split: option.splits)
  note r = dateRegex_match_Some [OF g]
  let ?t = "MakeDate (MakeDay y (m - 1) d) 0"
  have day: "Day (LocalTime tza ?t) = Day ?t"
    using tz [of ?t] by (intro Day_LocalTime_east) simp_all
  note loc = same_day_same_fields [OF day]
  note enc = encode_decode [OF p]
  have fields: "getFullYear tza parsed = Some y" "getMonth tza parsed = Some (m - 1)"
    "getDate tza parsed = Some d"
    by (simp_all add: getFullYear_def getMonth_def getDate_def dt loc enc)
  have ne: "yearStr \<noteq> []" using r(2) by auto
  then have "hd yearStr = hd s" by (simp add: r(1))
  then have ys: "show_nat (digits_val yearStr) = yearStr"
    using show_nat_digits_val [OF ne r(5)] year by simp
  obtain m1 m2 where ms: "monthStr = [m1, m2]"
    using r(3) by (cases monthStr; cases "tl monthStr") auto
  obtain d1 d2 where ds: "dayStr = [d1, d2]"
    using r(4) by (cases dayStr; cases "tl dayStr") auto
  have mp: "padStart 2 (CHR ''0'') (show_nat (digits_val monthStr)) = monthStr"
    using r(6) by (simp add: ms padStart_two_digits)
  have dp: "padStart 2 (CHR ''0'') (show_nat (digits_val dayStr)) = dayStr"
    using r(7) by (simp add: ds padStart_two_digits)
  show ?thesis
    by (simp add: formatDate_def fields num_add_def String_of_def y m d ys mp dp r(1) Let_def)
qed

text \<open>West of UTC the local day of the parsed instant is the day before.\<close>

lemma local_day_west:
  assumes parse: "parseDate s = Some parsed"
    and tz: "\<And>t. - msPerDay \<le> tza t \<and> tza t < 0"
  shows "\<exists>t. parsed = Date (Some t) \<and> Day (LocalTime tza t) = Day t - 1"
proof -
  obtain y m d where dt: "parsed = Date (Some (MakeDate (MakeDay y (m - 1) d) 0))"
    using parse by (auto simp: parseDate_Some_iff)
  have "Day (LocalTime tza (MakeDate (MakeDay y (m - 1) d) 0))
          = Day (MakeDate (MakeDay y (m - 1) d) 0) - 1"
    using tz [of "MakeDate (MakeDay y (m - 1) d) 0"] by (intro Day_LocalTime_west) simp_all
  then show ?thesis using dt by blast
qed

lemma leading_zero_iff:
  assumes "date_fields s = Some (y, m, d)"
  shows "hd s = CHR ''0'' \<longleftrightarrow> y < 1000"
proof -
  obtain yearStr monthStr dayStr where g: "dateRegex_match s = Some (yearStr, monthStr, dayStr)"
    and y: "y = int (digits_val yearStr)"
    using assms by (auto simp: date_fields_def split: option.splits)
  note r = dateRegex_match_Some [OF g]
  obtain a ds where ys: "yearStr = a # ds" and len: "length ds = 3"
    using r(2) by (cases yearStr) auto
  have "a = CHR ''0'' \<longleftrightarrow> digits_val (a # ds) < 10 ^ length ds"
    using r(5) by (intro digits_val_leading) (simp_all add: ys)
  then show ?thesis by (simp add: r(1) ys y len)
qed

text \<open>On a host on UTC the round trip holds for every accepted string of the years 1000 to 9999.\<close>

lemma format_parse_roundtrip_utc:
  assumes "parseDate s = Some parsed" and "date_fields s = Some (y, m, d)" and "1000 \<le> y"
  shows "formatDate utc parsed = s"
proof (rule format_parse_roundtrip [OF assms(1)])
  show "0 \<le> utc t \<and> utc t < msPerDay" for t by (simp add: utc_def msPerDay_def)
  show "hd s \<noteq> CHR ''0''" using leading_zero_iff [OF assms(2)] assms(3) by simp
qed

subsection \<open>The claims about the date utilities\<close>

lemma parse_2026_02_15: "parseDate ''2026-02-15'' = Some (Date (Some 1771113600000))"
  by code_simp

lemma format_2026_02_15_west: "formatDate utc_minus_5 (Date (Some 1771113600000)) = ''2026-02-14''"
  unfolding utc_minus_5_def by code_simp

lemma parse_0100_01_01: "parseDate ''0100-01-01'' = Some (Date (Some (- 59011459200000)))"
  by code_simp

lemma format_0100_01_01: "formatDate utc (Date (Some (- 59011459200000))) = ''100-01-01''"
  unfolding utc_def by code_simp

text \<open>
  C1 does not hold of the code. \<open>formatDate\<close> reads the date with the local-time getters,
  so on a host west of UTC the string parsed at midnight UTC is formatted as the day
  before; and it prints the year without padding, so a year from 0100 to 0999 loses its
  leading zero on any host. Both strings are accepted by \<open>isValidDate\<close>.
\<close>

theorem roundtrip_fails:
  "isValidDate ''2026-02-15''
   \<and> map_option (formatDate utc_minus_5) (parseDate ''2026-02-15'') = Some ''2026-02-14''
   \<and> isValidDate ''0100-01-01''
   \<and> map_option (formatDate utc) (parseDate ''0100-01-01'') = Some ''100-01-01''"
  by (simp add: isValidDate_def parse_2026_02_15 format_2026_02_15_west parse_0100_01_01
      format_0100_01_01)

lemma fields_0050_01_01: "date_fields ''0050-01-01'' = Some (50, 1, 1)"
  by code_simp

text \<open>
  C2 does not hold of the code: \<open>0050-01-01\<close> matches the pattern and is a possible date,
  and \<open>parseDate\<close> returns \<open>null\<close> for it, because \<open>Date.UTC\<close> reads the year 50 as 1950 and
  the year read back is not 50. (\<open>isValidDate_iff\<close> above is what the code accepts: the
  possible dates of the years 0100 to 9999.)
\<close>

theorem year_below_100_rejected:
  "date_fields ''0050-01-01'' = Some (50, 1, 1) \<and> possible_date 50 1 1
   \<and> parseDate ''0050-01-01'' = None \<and> \<not> isValidDate ''0050-01-01''"
proof -
  have a: "possible_date 50 1 1" by (simp add: possible_date_def days_in_month_def)
  have "\<not> isValidDate ''0050-01-01''"
    by (simp add: isValidDate_iff fields_0050_01_01)
  then show ?thesis using a by (simp add: fields_0050_01_01 isValidDate_def)
qed

end
